theory Spec2Isabelle
  imports Complex_Main "HOL-Library.Word" "HOL-Library.Log_Nat"
begin

section \<open>Basic types of the script\<close>

text \<open>
  The script \<^verbatim>\<open>scratch/evaluate_qd_dense_scenario_single_ap.cc\<close> keeps its state in
  global tables and reacts to callbacks of the simulator. Every callback is modelled as a
  function from the state it reads to the state it leaves and the effects it issues
  (console lines, trace rows, commands to applications, requests to the scheduler).

  A \<^verbatim>\<open>Mac48Address\<close> is a 48-bit value. A \<^verbatim>\<open>Ptr<Node>\<close>, a
  \<^verbatim>\<open>Ptr<Application>\<close> and a \<^verbatim>\<open>Ptr<PacketSink>\<close> are object handles;
  \<^verbatim>\<open>std::map\<close> orders its keys, so a handle is a number. A \<^verbatim>\<open>Time\<close> is a
  number of nanoseconds, taken as an integer: the simulator keeps it in 64 bits, and the
  times of a run of some seconds are far from that bound.
\<close>

type_synonym Mac48Address = "48 word"
type_synonym Node = nat
type_synonym Application = nat
type_synonym PacketSink = nat
type_synonym Time = int

datatype error
  = NS_FATAL_ERROR string
  | OutOfRange

section \<open>The type \<^verbatim>\<open>double\<close>\<close>

text \<open>
  A \<^verbatim>\<open>double\<close> is an IEEE 754 binary64 value with the default rounding (to nearest,
  ties to even), each operation rounded once to binary64. A finite value is the rational
  it denotes; the two zeros are not told apart (the script neither divides by a zero nor
  produces a negative one).
\<close>

datatype double = Finite rat | PosInf | NegInf | NaN

definition pow2 :: "int \<Rightarrow> rat" where
  "pow2 k = (if 0 \<le> k then 2 ^ nat k else 1 / 2 ^ nat (- k))"

text \<open>Rounding a rational to the nearest integer, a tie to the even one.\<close>

definition rne :: "rat \<Rightarrow> int" where
  "rne x = (let f = \<lfloor>x\<rfloor>; r = x - of_int f
            in if r < 1 / 2 then f
               else if 1 / 2 < r then f + 1
               else if even f then f else f + 1)"

text \<open>\<open>ilog2 x\<close> is the \<open>k\<close> with \<open>2 ^ k \<le> x < 2 ^ (k + 1)\<close>, for \<open>0 < x\<close>.\<close>

definition ilog2 :: "rat \<Rightarrow> int" where
  "ilog2 x = (let (a, b) = quotient_of x; k = bitlen a - bitlen b
              in if pow2 k \<le> x then k else k - 1)"

text \<open>
  The exponent of the last place of a binary64 value near \<open>x\<close>: 53 significant bits, and
  never below the last place of the subnormal numbers, \<open>2 ^ - 1074\<close>.
\<close>

definition ulp_exp :: "rat \<Rightarrow> int" where
  "ulp_exp x = max (ilog2 \<bar>x\<bar> - 52) (- 1074)"

definition rn64 :: "rat \<Rightarrow> rat" where
  "rn64 x = (if x = 0 then 0
             else of_int (rne (x / pow2 (ulp_exp x))) * pow2 (ulp_exp x))"

text \<open>A rounded result beyond the largest finite binary64 value is an infinity.\<close>

definition to_double :: "rat \<Rightarrow> double" where
  "to_double x = (let y = rn64 x
                  in if pow2 1024 \<le> y then PosInf
                     else if y \<le> - pow2 1024 then NegInf
                     else Finite y)"

fun dadd :: "double \<Rightarrow> double \<Rightarrow> double" where
  "dadd (Finite a) (Finite b) = to_double (a + b)"
| "dadd NaN _ = NaN"
| "dadd _ NaN = NaN"
| "dadd PosInf NegInf = NaN"
| "dadd NegInf PosInf = NaN"
| "dadd PosInf _ = PosInf"
| "dadd _ PosInf = PosInf"
| "dadd NegInf _ = NegInf"
| "dadd _ NegInf = NegInf"

definition dsign :: "double \<Rightarrow> int" where
  "dsign x = (case x of Finite a \<Rightarrow> (if a < 0 then - 1 else if a = 0 then 0 else 1)
              | PosInf \<Rightarrow> 1 | NegInf \<Rightarrow> - 1 | NaN \<Rightarrow> 0)"

definition dinf :: "int \<Rightarrow> double" where
  "dinf s = (if s = 0 then NaN else if 0 < s then PosInf else NegInf)"

fun dmul :: "double \<Rightarrow> double \<Rightarrow> double" where
  "dmul (Finite a) (Finite b) = to_double (a * b)"
| "dmul NaN _ = NaN"
| "dmul _ NaN = NaN"
| "dmul x y = dinf (dsign x * dsign y)"

fun ddiv :: "double \<Rightarrow> double \<Rightarrow> double" where
  "ddiv (Finite a) (Finite b) = (if b = 0 then dinf (dsign (Finite a)) else to_double (a / b))"
| "ddiv NaN _ = NaN"
| "ddiv _ NaN = NaN"
| "ddiv (Finite a) _ = Finite 0"
| "ddiv x (Finite b) = dinf (dsign x * (if b < 0 then - 1 else 1))"
| "ddiv _ _ = NaN"

text \<open>The conversion of a \<^verbatim>\<open>uint64_t\<close> to \<^verbatim>\<open>double\<close>.\<close>

definition of_u64 :: "64 word \<Rightarrow> double" where
  "of_u64 w = to_double (of_nat (unat w))"

section \<open>\<^verbatim>\<open>std::map\<close>\<close>

text \<open>
  \<^verbatim>\<open>m[k]\<close> read as a value: a key that is absent is inserted with the
  value-initialised entry, here zero, and that entry is returned.
\<close>

definition map_index :: "('k \<rightharpoonup> 'v::zero) \<Rightarrow> 'k \<Rightarrow> 'v \<times> ('k \<rightharpoonup> 'v)" where
  "map_index m k = (case m k of None \<Rightarrow> (0, m(k \<mapsto> 0)) | Some v \<Rightarrow> (v, m))"

text \<open>
  A map that is iterated is the list of its entries in the order of their keys.
  \<^verbatim>\<open>m[k] = v\<close> replaces the entry of \<open>k\<close> or inserts one at its place;
  \<^verbatim>\<open>m.find (k)\<close> is \<open>map_of\<close>; a write through the iterator that \<^verbatim>\<open>find\<close>
  returned changes the entry where it is.
\<close>

fun map_assign :: "'k::linorder \<Rightarrow> 'v \<Rightarrow> ('k \<times> 'v) list \<Rightarrow> ('k \<times> 'v) list" where
  "map_assign k v [] = [(k, v)]"
| "map_assign k v ((k', v') # xs) =
     (if k < k' then (k, v) # (k', v') # xs
      else if k = k' then (k, v) # xs
      else (k', v') # map_assign k v xs)"

fun map_modify :: "'k \<Rightarrow> ('v \<Rightarrow> 'v) \<Rightarrow> ('k \<times> 'v) list \<Rightarrow> ('k \<times> 'v) list" where
  "map_modify k f [] = []"
| "map_modify k f ((k', v') # xs) =
     (if k = k' then (k', f v') # xs else (k', v') # map_modify k f xs)"

section \<open>The traffic pairs\<close>

record CommunicationPair =
  srcApp :: Application
  packetSink :: PacketSink
  totalRx :: "64 word"
  throughput :: double
  startTime :: Time

type_synonym CommunicationPairList = "(Node \<times> CommunicationPair) list"

text \<open>What a callback writes to \<^verbatim>\<open>std::cout\<close>, one value for each line.\<close>

datatype console
  = Associated Mac48Address Mac48Address "16 word"
  | Deassociated Mac48Address Mac48Address
  | SlsLine "32 word" Mac48Address "16 word" "16 word"
  | PlainLine Time "double list" double
  | CsvLine Time "double list" double

text \<open>The commands a callback gives to an application.\<close>

datatype command = StartApplication Application | StopApplication Application

text \<open>
  \<^verbatim>\<open>StationAssoicated\<close> and \<^verbatim>\<open>StationDeassoicated\<close>: the result is the console
  output, and then either the fatal error or the table and the commands issued.
  \<open>now\<close> is \<^verbatim>\<open>Simulator::Now ()\<close>, \<open>staAddress\<close> is
  \<^verbatim>\<open>staWifiMac->GetAddress ()\<close>.
\<close>

definition StationAssoicated ::
  "bool \<Rightarrow> Time \<Rightarrow> CommunicationPairList \<Rightarrow> Node \<Rightarrow> Mac48Address \<Rightarrow> Mac48Address \<Rightarrow> 16 word
    \<Rightarrow> console list \<times> (error + CommunicationPairList \<times> command list)" where
  "StationAssoicated csv now communicationPairList node staAddress address aid =
     (if \<not> csv then [Associated staAddress address aid] else [],
      case map_of communicationPairList node of
        Some p \<Rightarrow>
          Inr (map_modify node (\<lambda>p. p\<lparr>startTime := now\<rparr>) communicationPairList,
               [StartApplication (srcApp p)])
      | None \<Rightarrow> Inl (NS_FATAL_ERROR ''Could not find application to run.''))"

definition StationDeassoicated ::
  "bool \<Rightarrow> CommunicationPairList \<Rightarrow> Node \<Rightarrow> Mac48Address \<Rightarrow> Mac48Address
    \<Rightarrow> console list \<times> (error + CommunicationPairList \<times> command list)" where
  "StationDeassoicated csv communicationPairList node staAddress address =
     (if \<not> csv then [Deassociated staAddress address] else [],
      case map_of communicationPairList node of
        Some p \<Rightarrow> Inr (communicationPairList, [StopApplication (srcApp p)])
      | None \<Rightarrow> Inl (NS_FATAL_ERROR ''Could not find application to delete.''))"

section \<open>Installing the applications\<close>

text \<open>
  The applications that the helpers create live in a store; the handle of a new one is
  its position there. An entry keeps the kind of the application, the node it is
  installed on, its port and its activation window in seconds (the sink has no stop).
\<close>

datatype app_kind = OnOffApplication | BulkSendApplication | PacketSinkApplication

record app =
  kind :: app_kind
  host :: Node
  port :: nat
  startAt :: double
  stopAt :: "double option"

text \<open>
  \<^verbatim>\<open>InstallApplications\<close>. With an \<^verbatim>\<open>applicationType\<close> that is neither
  \<^verbatim>\<open>onoff\<close> nor \<^verbatim>\<open>bulk\<close> the container of the source stays empty and
  \<^verbatim>\<open>srcApp.Get (0)\<close> reads out of its range, which is the error \<open>OutOfRange\<close> here.
  The address of the destination only configures the generator and is not kept.
\<close>

definition InstallApplications ::
  "string \<Rightarrow> double \<Rightarrow> app list \<Rightarrow> Node \<Rightarrow> Node \<Rightarrow> 32 word \<Rightarrow> 8 word
    \<Rightarrow> error + CommunicationPair \<times> app list" where
  "InstallApplications applicationType simulationTime apps srcNode dstNode address appNumber =
     (let window = (dadd simulationTime (Finite 1), Some simulationTime);
          srcApps =
            (if applicationType = ''onoff''
             then [\<lparr>kind = OnOffApplication, host = srcNode, port = 9000 + unat appNumber,
                    startAt = fst window, stopAt = snd window\<rparr>]
             else if applicationType = ''bulk''
             then [\<lparr>kind = BulkSendApplication, host = srcNode, port = 9000 + unat appNumber,
                    startAt = fst window, stopAt = snd window\<rparr>]
             else [])
      in case srcApps of
           [] \<Rightarrow> Inl OutOfRange
         | a # _ \<Rightarrow>
             Inr (\<lparr>srcApp = length apps, packetSink = Suc (length apps), totalRx = 0,
                    throughput = Finite 0, startTime = 0\<rparr>,
                  apps @ [a, \<lparr>kind = PacketSinkApplication, host = dstNode,
                                port = 9000 + unat appNumber,
                                startAt = Finite 0, stopAt = None\<rparr>]))"

text \<open>
  The loop of \<^verbatim>\<open>main\<close> over the stations, from the index \<open>i\<close> on:
  \<^verbatim>\<open>communicationPairList[staWifiNodes.Get (i)] = InstallApplications (...)\<close>. The index is
  a \<^verbatim>\<open>uint32_t\<close> and the parameter \<^verbatim>\<open>appNumber\<close> a \<^verbatim>\<open>uint8_t\<close>.
\<close>

fun main_install ::
  "string \<Rightarrow> double \<Rightarrow> Node \<Rightarrow> 32 word \<Rightarrow> Node list \<Rightarrow> nat \<Rightarrow> app list \<Rightarrow> CommunicationPairList
    \<Rightarrow> error + CommunicationPairList \<times> app list" where
  "main_install applicationType simulationTime ap address [] i apps communicationPairList =
     Inr (communicationPairList, apps)"
| "main_install applicationType simulationTime ap address (sta # stas) i apps communicationPairList =
     (case InstallApplications applicationType simulationTime apps sta ap address (of_nat i) of
        Inl e \<Rightarrow> Inl e
      | Inr (p, apps') \<Rightarrow>
          main_install applicationType simulationTime ap address stas (Suc i) apps'
            (map_assign sta p communicationPairList))"

section \<open>The throughput sampler\<close>

text \<open>
  \<^verbatim>\<open>CalculateSingleStreamThroughput\<close>: \<open>GetTotalRx\<close> reads the counter of a sink; the
  two reference parameters are returned after the rate. The difference is taken in
  \<^verbatim>\<open>uint64_t\<close> and then converted.
\<close>

definition CalculateSingleStreamThroughput ::
  "(PacketSink \<Rightarrow> 64 word) \<Rightarrow> PacketSink \<Rightarrow> 64 word \<Rightarrow> double \<Rightarrow> double \<times> 64 word \<times> double" where
  "CalculateSingleStreamThroughput GetTotalRx sink lastTotalRx averageThroughput =
     (let thr = ddiv (dmul (of_u64 (GetTotalRx sink - lastTotalRx)) (Finite 8)) (Finite 100000);
          lastTotalRx' = GetTotalRx sink;
          averageThroughput' = dadd averageThroughput thr
      in (thr, lastTotalRx', averageThroughput'))"

text \<open>
  The loop of \<^verbatim>\<open>CalculateThroughput\<close> over the table, the same in both output modes:
  the table after the loop, the rates in the order of the table, and \<^verbatim>\<open>totalThr\<close>.
\<close>

fun sample_pairs ::
  "(PacketSink \<Rightarrow> 64 word) \<Rightarrow> CommunicationPairList \<Rightarrow> double
    \<Rightarrow> CommunicationPairList \<times> double list \<times> double" where
  "sample_pairs GetTotalRx [] totalThr = ([], [], totalThr)"
| "sample_pairs GetTotalRx ((n, p) # ps) totalThr =
     (let (thr, rx, avg) =
            CalculateSingleStreamThroughput GetTotalRx (packetSink p) (totalRx p) (throughput p);
          (ps', thrs, total) = sample_pairs GetTotalRx ps (dadd totalThr thr)
      in ((n, p\<lparr>totalRx := rx, throughput := avg\<rparr>) # ps', thr # thrs, total))"

text \<open>A request to the scheduler: a delay from now and the function to call.\<close>

datatype handler = CalculateThroughput_handler

datatype request = Schedule Time handler

definition MilliSeconds :: "int \<Rightarrow> Time" where
  "MilliSeconds n = n * 1000000"

text \<open>
  \<^verbatim>\<open>CalculateThroughput\<close>: the line written, the table, and the requests to the
  scheduler. The line keeps the time and the values; their layout in columns is left out.
\<close>

definition CalculateThroughput ::
  "bool \<Rightarrow> Time \<Rightarrow> (PacketSink \<Rightarrow> 64 word) \<Rightarrow> CommunicationPairList
    \<Rightarrow> console \<times> CommunicationPairList \<times> request list" where
  "CalculateThroughput csv now GetTotalRx communicationPairList =
     (let (pairs, thrs, totalThr) = sample_pairs GetTotalRx communicationPairList (Finite 0)
      in (if \<not> csv then PlainLine now thrs totalThr else CsvLine now thrs totalThr,
          pairs,
          [Schedule (MilliSeconds 100) CalculateThroughput_handler]))"


text \<open>
  What the sampler does to one pair over a run: the counter of its sink reads
  \<open>r\<close> at a tick, for each \<open>r\<close> of the list in turn; the state is the pair's
  \<^verbatim>\<open>totalRx\<close> and \<^verbatim>\<open>throughput\<close>.
\<close>

fun sample_ticks :: "64 word list \<Rightarrow> 64 word \<times> double \<Rightarrow> 64 word \<times> double" where
  "sample_ticks [] s = s"
| "sample_ticks (r # rs) (lastTotalRx, averageThroughput) =
     (let (thr, lastTotalRx', averageThroughput') =
            CalculateSingleStreamThroughput (\<lambda>_. r) 0 lastTotalRx averageThroughput
      in sample_ticks rs (lastTotalRx', averageThroughput'))"

text \<open>
  Modelled from the spec: the clock and the scheduler of the simulator, which are not
  among the sources (``a discrete-event clock with now and schedule at future time'').
  An event runs at its time without taking any; a request with the delay \<open>d\<close> made at
  the time \<open>t\<close> is an event at \<open>t + d\<close>. \<open>run_sampler n\<close> runs the next \<open>n\<close>
  events of the queue, which holds the times of the pending calls of the sampler, the
  earliest first;
  \<open>rx t\<close> reads the sinks at the time \<open>t\<close>. The result is the times of the calls
  that ran, the queue left and the table.
\<close>

fun run_sampler ::
  "nat \<Rightarrow> bool \<Rightarrow> (Time \<Rightarrow> PacketSink \<Rightarrow> 64 word) \<Rightarrow> Time list \<Rightarrow> CommunicationPairList
    \<Rightarrow> Time list \<times> Time list \<times> CommunicationPairList" where
  "run_sampler 0 csv rx queue pairs = ([], queue, pairs)"
| "run_sampler (Suc n) csv rx [] pairs = ([], [], pairs)"
| "run_sampler (Suc n) csv rx (t # queue) pairs =
     (let (line, pairs', requests) = CalculateThroughput csv t (rx t) pairs;
          (ran, queue', pairs'') =
            run_sampler n csv rx (sort (queue @ map (\<lambda>Schedule d h \<Rightarrow> t + d) requests))
              pairs'
      in (t # ran, queue', pairs''))"

text \<open>
  \<^verbatim>\<open>main\<close> makes the first request, \<^verbatim>\<open>Simulator::Schedule (Seconds (0.1), ...)\<close>, at
  the time 0: one tenth of a second is 100000000 ns.
\<close>

definition main_first_tick :: Time where
  "main_first_tick = 100000000"

section \<open>The peer registry and the sector-sweep trace\<close>

text \<open>
  What the script reads of a MAC layer object at a callback, and the
  \<^verbatim>\<open>Parameters\<close> bound to the callback. \<^verbatim>\<open>GetTypeOfStation\<close> is written as a number.
\<close>

record DmgWifiMac =
  GetAddress :: Mac48Address
  GetBssid :: Mac48Address
  IsAssociated :: bool
  GetTypeOfStation :: nat

record Parameters =
  srcNodeID :: "32 word"
  wifiMac :: DmgWifiMac

text \<open>
  A network device as the loop of \<^verbatim>\<open>main\<close> over \<^verbatim>\<open>devices\<close> reads it:
  \<^verbatim>\<open>netDevice->GetMac ()->GetAddress ()\<close> and \<^verbatim>\<open>netDevice->GetNode ()->GetId ()\<close>.
  The loop is \<^verbatim>\<open>map_Mac2ID[address] = id\<close> for each device in turn.
\<close>

record device =
  mac :: Mac48Address
  nodeId :: "32 word"

fun main_map_Mac2ID ::
  "device list \<Rightarrow> (Mac48Address \<rightharpoonup> 32 word) \<Rightarrow> (Mac48Address \<rightharpoonup> 32 word)" where
  "main_map_Mac2ID [] map_Mac2ID = map_Mac2ID"
| "main_map_Mac2ID (d # ds) map_Mac2ID = main_map_Mac2ID ds (map_Mac2ID(mac d \<mapsto> nodeId d))"

text \<open>
  \<^verbatim>\<open>main\<close> binds to the trace of a device the parameters with the id of its node
  and its MAC layer.
\<close>

definition main_parameters :: "device \<Rightarrow> DmgWifiMac \<Rightarrow> Parameters" where
  "main_parameters d w = \<lparr>srcNodeID = nodeId d, wifiMac = w\<rparr>"

record sls_row =
  SRC_ID :: "32 word"
  DST_ID :: "32 word"
  TRACE_IDX :: nat
  SECTOR_ID :: "16 word"
  ANTENNA_ID :: "16 word"
  ROLE :: nat
  BSS_ID :: "32 word"
  Timestamp :: Time

text \<open>
  \<^verbatim>\<open>SLSCompleted\<close>: the row written to the stream, the console output and the registry
  after the two reads \<^verbatim>\<open>map_Mac2ID[...]\<close>. \<open>traceIndex\<close> is
  \<^verbatim>\<open>lossModelRaytracing->GetCurrentTraceIndex ()\<close>; the access period, the direction
  and the two flags of the callback are not used by the function. The additions are in
  \<^verbatim>\<open>uint32_t\<close>.
\<close>

definition SLSCompleted ::
  "bool \<Rightarrow> Time \<Rightarrow> nat \<Rightarrow> (Mac48Address \<rightharpoonup> 32 word) \<Rightarrow> Parameters \<Rightarrow> Mac48Address
    \<Rightarrow> 8 word \<Rightarrow> 8 word \<Rightarrow> sls_row \<times> console list \<times> (Mac48Address \<rightharpoonup> 32 word)" where
  "SLSCompleted csv now traceIndex map_Mac2ID parameters address sectorId antennaId =
     (let (dst, m1) = map_index map_Mac2ID address;
          (bss, m2) = map_index m1 (GetBssid (wifiMac parameters))
      in (\<lparr>SRC_ID = srcNodeID parameters + 1, DST_ID = dst + 1, TRACE_IDX = traceIndex,
            SECTOR_ID = ucast sectorId, ANTENNA_ID = ucast antennaId,
            ROLE = GetTypeOfStation (wifiMac parameters), BSS_ID = bss + 1,
            Timestamp = now\<rparr>,
          if \<not> csv then [SlsLine (srcNodeID parameters) address (ucast sectorId) (ucast antennaId)]
          else [],
          m2))"

section \<open>The beam-retraining trigger\<close>

text \<open>What the callback asks of the MAC layer.\<close>

datatype mac_request = InitiateTxssCbap Mac48Address

text \<open>
  \<^verbatim>\<open>DataTransmissionIntervalStarted\<close>, with the two globals \<^verbatim>\<open>biThreshold\<close> and
  \<^verbatim>\<open>biCounter\<close>; the counter is a \<^verbatim>\<open>uint16_t\<close>.
\<close>

definition DataTransmissionIntervalStarted ::
  "16 word \<Rightarrow> (Mac48Address \<rightharpoonup> 16 word) \<Rightarrow> DmgWifiMac \<Rightarrow> Mac48Address
    \<Rightarrow> (Mac48Address \<rightharpoonup> 16 word) \<times> mac_request list" where
  "DataTransmissionIntervalStarted biThreshold biCounter staWifiMac address =
     (if IsAssociated staWifiMac then
        (let (c, m) = map_index biCounter address;
             counter = c + 1
         in if counter = biThreshold
            then (m(address \<mapsto> 0), [InitiateTxssCbap (GetBssid staWifiMac)])
            else (m(address \<mapsto> counter), []))
      else (biCounter, []))"

text \<open>
  \<^verbatim>\<open>main\<close> sets \<^verbatim>\<open>biCounter[staWifiMac->GetAddress ()] = 0\<close> for every station and
  leaves \<^verbatim>\<open>biThreshold\<close> at 10.
\<close>

fun main_biCounter ::
  "Mac48Address list \<Rightarrow> (Mac48Address \<rightharpoonup> 16 word) \<Rightarrow> (Mac48Address \<rightharpoonup> 16 word)" where
  "main_biCounter [] biCounter = biCounter"
| "main_biCounter (a # as) biCounter = main_biCounter as (biCounter(a \<mapsto> 0))"

definition main_biThreshold :: "16 word" where
  "main_biThreshold = 10"

text \<open>
  A run of the trigger: the events in the order they arrive, each with the state of the
  MAC layer it is delivered to and the address it carries; the requests are collected.
\<close>

fun run_DataTransmissionIntervalStarted ::
  "16 word \<Rightarrow> (DmgWifiMac \<times> Mac48Address) list \<Rightarrow> (Mac48Address \<rightharpoonup> 16 word)
    \<Rightarrow> (Mac48Address \<rightharpoonup> 16 word) \<times> mac_request list" where
  "run_DataTransmissionIntervalStarted biThreshold [] biCounter = (biCounter, [])"
| "run_DataTransmissionIntervalStarted biThreshold ((w, a) # es) biCounter =
     (let (m, rs) = DataTransmissionIntervalStarted biThreshold biCounter w a;
          (m', rs') = run_DataTransmissionIntervalStarted biThreshold es m
      in (m', rs @ rs'))"

text \<open>The counter of a station as the next read \<^verbatim>\<open>biCounter[address]\<close> finds it.\<close>

definition counter_of :: "(Mac48Address \<rightharpoonup> 16 word) \<Rightarrow> Mac48Address \<Rightarrow> 16 word" where
  "counter_of biCounter a = fst (map_index biCounter a)"

section \<open>The signal-quality trace\<close>

text \<open>
  Modelled from the spec: the enumeration \<^verbatim>\<open>WifiMacType\<close> is declared in a header that
  is not among the sources. The five frame types that the function names are kept (the
  data frame of the spec is \<^verbatim>\<open>WIFI_MAC_QOSDATA\<close>); every other enumerator is
  \<open>WIFI_MAC_OTHER n\<close>.
\<close>

datatype WifiMacType
  = WIFI_MAC_QOSDATA
  | WIFI_MAC_EXTENSION_DMG_BEACON
  | WIFI_MAC_CTL_DMG_SSW
  | WIFI_MAC_CTL_DMG_SSW_FBCK
  | WIFI_MAC_CTL_DMG_SSW_ACK
  | WIFI_MAC_OTHER nat

record snr_row =
  TIME :: Time
  SRC :: Mac48Address
  DST :: Mac48Address
  SNR :: double

text \<open>\<^verbatim>\<open>MacRxOk\<close>: the rows written to the stream.\<close>

definition MacRxOk ::
  "bool \<Rightarrow> Time \<Rightarrow> DmgWifiMac \<Rightarrow> WifiMacType \<Rightarrow> Mac48Address \<Rightarrow> double \<Rightarrow> snr_row list" where
  "MacRxOk reportDataSnr now WifiMac type address snrValue =
     (if type = WIFI_MAC_QOSDATA \<and> reportDataSnr
      then [\<lparr>TIME = now, SRC = address, DST = GetAddress WifiMac, SNR = snrValue\<rparr>]
      else if type = WIFI_MAC_EXTENSION_DMG_BEACON \<or> type = WIFI_MAC_CTL_DMG_SSW
              \<or> type = WIFI_MAC_CTL_DMG_SSW_FBCK \<or> type = WIFI_MAC_CTL_DMG_SSW_ACK
      then [\<lparr>TIME = now, SRC = address, DST = GetAddress WifiMac, SNR = snrValue\<rparr>]
      else [])"

section \<open>Facts about the maps\<close>

lemma map_of_map_assign: "map_of (map_assign k v xs) = (map_of xs)(k \<mapsto> v)"
  by (induction xs) auto

lemma map_of_map_modify:
  "map_of (map_modify k f xs) = (case map_of xs k of None \<Rightarrow> map_of xs
                                 | Some v \<Rightarrow> (map_of xs)(k \<mapsto> f v))"
  by (induction xs) (auto split: option.splits)

lemma map_fst_map_modify: "map fst (map_modify k f xs) = map fst xs"
  by (induction xs) auto

lemma map_of_map_modify_Some:
  "map_of xs k = Some v \<Longrightarrow> map_of (map_modify k f xs) = (map_of xs)(k \<mapsto> f v)"
  by (simp add: map_of_map_modify)

section \<open>Association and deassociation\<close>

text \<open>
  Claim C3. For a peer with a registered traffic pair, every call of
  \<^verbatim>\<open>StationAssoicated\<close> stores the current simulation time as the start time of the
  pair and gives the start command to the generator bound to it, and changes no other
  pair. A deassociation gives the stop command and keeps the record, so an association
  that follows (at the time \<open>t2\<close>) finds the pair again, overwrites the start time
  stored before with \<open>t2\<close> and starts the same generator again.
\<close>

theorem association_sets_start_time_and_starts_generator:
  assumes "map_of communicationPairList node = Some p"
  shows "\<exists>pairs1 pairs2.
           snd (StationAssoicated csv t1 communicationPairList node sta a1 aid1) =
             Inr (pairs1, [StartApplication (srcApp p)])
         \<and> map_of pairs1 node = Some (p\<lparr>startTime := t1\<rparr>)
         \<and> (\<forall>n. n \<noteq> node \<longrightarrow> map_of pairs1 n = map_of communicationPairList n)
         \<and> snd (StationDeassoicated csv pairs1 node sta a1) =
             Inr (pairs1, [StopApplication (srcApp p)])
         \<and> snd (StationAssoicated csv t2 pairs1 node sta a2 aid2) =
             Inr (pairs2, [StartApplication (srcApp p)])
         \<and> map_of pairs2 node = Some (p\<lparr>startTime := t2\<rparr>)
         \<and> (\<forall>n. n \<noteq> node \<longrightarrow> map_of pairs2 n = map_of communicationPairList n)"
proof -
  let ?c1 = "map_modify node (\<lambda>p. p\<lparr>startTime := t1\<rparr>) communicationPairList"
  let ?c2 = "map_modify node (\<lambda>p. p\<lparr>startTime := t2\<rparr>) ?c1"
  have m1: "map_of ?c1 = (map_of communicationPairList)(node \<mapsto> p\<lparr>startTime := t1\<rparr>)"
    using assms by (rule map_of_map_modify_Some)
  have "map_of ?c1 node = Some (p\<lparr>startTime := t1\<rparr>)"
    by (simp add: m1)
  then have "map_of ?c2 = (map_of ?c1)(node \<mapsto> p\<lparr>startTime := t1, startTime := t2\<rparr>)"
    by (rule map_of_map_modify_Some)
  then have m2: "map_of ?c2 = (map_of communicationPairList)(node \<mapsto> p\<lparr>startTime := t2\<rparr>)"
    by (simp add: m1)
  have a1: "snd (StationAssoicated csv t1 communicationPairList node sta a1 aid1) =
              Inr (?c1, [StartApplication (srcApp p)])"
    using assms by (simp add: StationAssoicated_def)
  have d: "snd (StationDeassoicated csv ?c1 node sta a1) =
             Inr (?c1, [StopApplication (srcApp p)])"
    by (simp add: StationDeassoicated_def m1)
  have a2: "snd (StationAssoicated csv t2 ?c1 node sta a2 aid2) =
              Inr (?c2, [StartApplication (srcApp p)])"
    by (simp add: StationAssoicated_def m1)
  show ?thesis
    using a1 d a2 m1 m2 by (intro exI[of _ ?c1] exI[of _ ?c2]) simp
qed

theorem association_sets_start_time_and_starts_generator_witness:
  "map_of [(3, \<lparr>srcApp = 0, packetSink = 1, totalRx = 0, throughput = Finite 0,
                 startTime = 0\<rparr>)] (3::nat)
     = Some \<lparr>srcApp = 0, packetSink = 1, totalRx = 0, throughput = Finite 0, startTime = 0\<rparr>
   \<and> (\<exists>pairs1 pairs2.
        snd (StationAssoicated False 5
               [(3, \<lparr>srcApp = 0, packetSink = 1, totalRx = 0, throughput = Finite 0,
                      startTime = 0\<rparr>)] 3 1 2 7) =
          Inr (pairs1, [StartApplication 0])
      \<and> map_of pairs1 3 =
          Some \<lparr>srcApp = 0, packetSink = 1, totalRx = 0, throughput = Finite 0, startTime = 5\<rparr>
      \<and> snd (StationDeassoicated False pairs1 3 1 2) = Inr (pairs1, [StopApplication 0])
      \<and> snd (StationAssoicated False 9 pairs1 3 1 2 8) = Inr (pairs2, [StartApplication 0])
      \<and> map_of pairs2 3 =
          Some \<lparr>srcApp = 0, packetSink = 1, totalRx = 0, throughput = Finite 0, startTime = 9\<rparr>)"
  using association_sets_start_time_and_starts_generator
    [of "[(3, \<lparr>srcApp = 0, packetSink = 1, totalRx = 0, throughput = Finite 0, startTime = 0\<rparr>)]"
        3 "\<lparr>srcApp = 0, packetSink = 1, totalRx = 0, throughput = Finite 0, startTime = 0\<rparr>"
        False 5 1 2 7 9 2 8]
  by fastforce

text \<open>
  Claim C4. For a peer that has no registered traffic pair, \<^verbatim>\<open>StationAssoicated\<close> and
  \<^verbatim>\<open>StationDeassoicated\<close> end in the fatal error, on every such call whatever the other
  arguments are; and they end in an error only then, that is exactly when the lookup in
  the table of pairs finds nothing.
\<close>

theorem missing_pair_is_fatal:
  "(snd (StationAssoicated csv now communicationPairList node sta a aid) =
      Inl (NS_FATAL_ERROR ''Could not find application to run.'')
    \<longleftrightarrow> map_of communicationPairList node = None)
   \<and> (isl (snd (StationAssoicated csv now communicationPairList node sta a aid))
      \<longleftrightarrow> map_of communicationPairList node = None)
   \<and> (snd (StationDeassoicated csv communicationPairList node sta a) =
        Inl (NS_FATAL_ERROR ''Could not find application to delete.'')
      \<longleftrightarrow> map_of communicationPairList node = None)
   \<and> (isl (snd (StationDeassoicated csv communicationPairList node sta a))
      \<longleftrightarrow> map_of communicationPairList node = None)"
  by (simp add: StationAssoicated_def StationDeassoicated_def split: option.splits)

theorem missing_pair_is_fatal_witness:
  "isl (snd (StationAssoicated False 5 [] 3 1 2 7))
   \<and> isl (snd (StationDeassoicated True [] 3 1 2))
   \<and> \<not> isl (snd (StationAssoicated False 5
                  [(3, \<lparr>srcApp = 0, packetSink = 1, totalRx = 0, throughput = Finite 0,
                         startTime = 0\<rparr>)] 3 1 2 7))"
  using missing_pair_is_fatal [of False 5 "[]" 3 1 2 7]
        missing_pair_is_fatal [of True 5 "[]" 3 1 2 7]
        missing_pair_is_fatal
          [of False 5 "[(3, \<lparr>srcApp = 0, packetSink = 1, totalRx = 0, throughput = Finite 0,
                             startTime = 0\<rparr>)]" 3 1 2 7]
  by simp

section \<open>The signal-quality trace row\<close>

text \<open>
  Claim C7. For every call of \<^verbatim>\<open>MacRxOk\<close>, exactly one row with the time in
  nanoseconds, the address of the transmitter, the address of the receiver and the signal
  quality is written if the frame type is one of the four beam-training types (DMG
  beacon, sector sweep, sector-sweep feedback, sector-sweep acknowledgment), or if it is
  the data frame type and \<^verbatim>\<open>reportDataSnr\<close> is set; in every other case nothing is
  written.
\<close>

theorem MacRxOk_rows:
  "MacRxOk reportDataSnr now WifiMac type address snrValue =
     (if type \<in> {WIFI_MAC_EXTENSION_DMG_BEACON, WIFI_MAC_CTL_DMG_SSW,
                  WIFI_MAC_CTL_DMG_SSW_FBCK, WIFI_MAC_CTL_DMG_SSW_ACK}
         \<or> (type = WIFI_MAC_QOSDATA \<and> reportDataSnr)
      then [\<lparr>TIME = now, SRC = address, DST = GetAddress WifiMac, SNR = snrValue\<rparr>]
      else [])"
  by (simp add: MacRxOk_def)

theorem MacRxOk_rows_witness:
  "MacRxOk True 42 \<lparr>GetAddress = 2, GetBssid = 1, IsAssociated = True, GetTypeOfStation = 0\<rparr>
     WIFI_MAC_QOSDATA 1 (Finite 3)
     = [\<lparr>TIME = 42, SRC = 1, DST = 2, SNR = Finite 3\<rparr>]
   \<and> MacRxOk False 42 \<lparr>GetAddress = 2, GetBssid = 1, IsAssociated = True, GetTypeOfStation = 0\<rparr>
       WIFI_MAC_QOSDATA 1 (Finite 3) = []
   \<and> MacRxOk False 42 \<lparr>GetAddress = 2, GetBssid = 1, IsAssociated = True, GetTypeOfStation = 0\<rparr>
       WIFI_MAC_CTL_DMG_SSW 1 (Finite 3)
     = [\<lparr>TIME = 42, SRC = 1, DST = 2, SNR = Finite 3\<rparr>]
   \<and> MacRxOk True 42 \<lparr>GetAddress = 2, GetBssid = 1, IsAssociated = True, GetTypeOfStation = 0\<rparr>
       (WIFI_MAC_OTHER 0) 1 (Finite 3) = []"
  using MacRxOk_rows [of True 42 "\<lparr>GetAddress = 2, GetBssid = 1, IsAssociated = True,
                                    GetTypeOfStation = 0\<rparr>" WIFI_MAC_QOSDATA 1 "Finite 3"]
        MacRxOk_rows [of False 42 "\<lparr>GetAddress = 2, GetBssid = 1, IsAssociated = True,
                                     GetTypeOfStation = 0\<rparr>" WIFI_MAC_QOSDATA 1 "Finite 3"]
        MacRxOk_rows [of False 42 "\<lparr>GetAddress = 2, GetBssid = 1, IsAssociated = True,
                                     GetTypeOfStation = 0\<rparr>" WIFI_MAC_CTL_DMG_SSW 1 "Finite 3"]
        MacRxOk_rows [of True 42 "\<lparr>GetAddress = 2, GetBssid = 1, IsAssociated = True,
                                    GetTypeOfStation = 0\<rparr>" "WIFI_MAC_OTHER 0" 1 "Finite 3"]
  by simp

section \<open>The beam-retraining trigger: the counter\<close>

lemma counter_of_eq: "counter_of m a = (case m a of None \<Rightarrow> 0 | Some c \<Rightarrow> c)"
  by (simp add: counter_of_def map_index_def split: option.splits)

lemma counter_of_upd: "counter_of (m(a \<mapsto> c)) b = (if b = a then c else counter_of m b)"
  by (simp add: counter_of_eq)

lemma DTI_not_associated:
  "\<not> IsAssociated w \<Longrightarrow> DataTransmissionIntervalStarted th m w a = (m, [])"
  by (simp add: DataTransmissionIntervalStarted_def)

lemma DTI_associated:
  "IsAssociated w \<Longrightarrow>
   DataTransmissionIntervalStarted th m w a =
     (if counter_of m a + 1 = th then (m(a \<mapsto> 0), [InitiateTxssCbap (GetBssid w)])
      else (m(a \<mapsto> counter_of m a + 1), []))"
  by (auto simp: DataTransmissionIntervalStarted_def counter_of_def map_index_def
           split: option.splits)

lemma word_succ_below:
  fixes c th :: "16 word"
  assumes "c < th" "c + 1 \<noteq> th"
  shows "c + 1 < th" "unat (c + 1) = unat c + 1"
  using assms by unat_arith+

lemma DTI_preserves:
  assumes "0 < th" "\<forall>b. counter_of m b < th"
  shows "counter_of (fst (DataTransmissionIntervalStarted th m w a)) b < th"
proof (cases "IsAssociated w")
  case False
  then show ?thesis using assms by (simp add: DTI_not_associated)
next
  case True
  have "counter_of m a < th" using assms by simp
  then show ?thesis
    using True assms word_succ_below(1)[of "counter_of m a" th]
    by (simp add: DTI_associated counter_of_upd)
qed

lemma run_Cons:
  "run_DataTransmissionIntervalStarted th ((w, a) # es) m =
     (fst (run_DataTransmissionIntervalStarted th es (fst (DataTransmissionIntervalStarted th m w a))),
      snd (DataTransmissionIntervalStarted th m w a)
        @ snd (run_DataTransmissionIntervalStarted th es (fst (DataTransmissionIntervalStarted th m w a))))"
  by (simp split: prod.splits)

lemma run_preserves:
  assumes "0 < th"
  shows "\<forall>b. counter_of m b < th \<Longrightarrow>
         counter_of (fst (run_DataTransmissionIntervalStarted th es m)) b < th"
proof (induction es arbitrary: m b)
  case Nil
  then show ?case by simp
next
  case (Cons e es)
  obtain w a where e: "e = (w, a)" by (cases e)
  have "\<forall>b. counter_of (fst (DataTransmissionIntervalStarted th m w a)) b < th"
    using DTI_preserves[OF assms Cons.prems] by simp
  from Cons.IH[OF this] show ?case
    unfolding e run_Cons by simp
qed

lemma counter_of_main_biCounter:
  "counter_of (main_biCounter as m) b = (if b \<in> set as then 0 else counter_of m b)"
  by (induction as arbitrary: m) (auto simp: counter_of_upd)

text \<open>
  Claim C2. Let the threshold be positive and every stored counter below it, as
  \<^verbatim>\<open>main\<close> leaves them (threshold 10, counters 0). For every station and every
  beacon-interval event: if the station is not associated, the table of counters is left
  as it is and nothing is requested. If it is associated, then either the counter
  advances by exactly 1 (without wrapping) and nothing is requested, or the advanced
  counter equals the threshold, a re-sweep towards the station's current coordinator is
  requested exactly once and the counter is stored as 0. No other station's counter
  changes. So after the event, and after any run of events, every stored counter is
  still below the threshold.
\<close>

theorem retrain_counter:
  assumes "0 < biThreshold" and "\<forall>b. counter_of biCounter b < biThreshold"
  shows "(\<not> IsAssociated w \<longrightarrow>
            DataTransmissionIntervalStarted biThreshold biCounter w a = (biCounter, []))
       \<and> (IsAssociated w \<and> counter_of biCounter a + 1 \<noteq> biThreshold \<longrightarrow>
            snd (DataTransmissionIntervalStarted biThreshold biCounter w a) = []
          \<and> unat (counter_of (fst (DataTransmissionIntervalStarted biThreshold biCounter w a)) a)
              = unat (counter_of biCounter a) + 1)
       \<and> (IsAssociated w \<and> counter_of biCounter a + 1 = biThreshold \<longrightarrow>
            snd (DataTransmissionIntervalStarted biThreshold biCounter w a)
              = [InitiateTxssCbap (GetBssid w)]
          \<and> counter_of (fst (DataTransmissionIntervalStarted biThreshold biCounter w a)) a = 0)
       \<and> (\<forall>b. b \<noteq> a \<longrightarrow>
            counter_of (fst (DataTransmissionIntervalStarted biThreshold biCounter w a)) b
              = counter_of biCounter b)
       \<and> (\<forall>b. counter_of (fst (DataTransmissionIntervalStarted biThreshold biCounter w a)) b
              < biThreshold)
       \<and> (\<forall>b. counter_of (fst (run_DataTransmissionIntervalStarted biThreshold es biCounter)) b
              < biThreshold)"
proof (intro conjI allI impI)
  show "DataTransmissionIntervalStarted biThreshold biCounter w a = (biCounter, [])"
    if "\<not> IsAssociated w"
    using that by (rule DTI_not_associated)
next
  assume h: "IsAssociated w \<and> counter_of biCounter a + 1 \<noteq> biThreshold"
  then show "snd (DataTransmissionIntervalStarted biThreshold biCounter w a) = []"
    by (simp add: DTI_associated)
  have "counter_of biCounter a < biThreshold" using assms(2) by simp
  then show "unat (counter_of (fst (DataTransmissionIntervalStarted biThreshold biCounter w a)) a)
              = unat (counter_of biCounter a) + 1"
    using h word_succ_below(2)[of "counter_of biCounter a" biThreshold]
    by (simp add: DTI_associated counter_of_upd)
next
  assume h: "IsAssociated w \<and> counter_of biCounter a + 1 = biThreshold"
  then show "snd (DataTransmissionIntervalStarted biThreshold biCounter w a)
              = [InitiateTxssCbap (GetBssid w)]"
    by (simp add: DTI_associated)
  from h show "counter_of (fst (DataTransmissionIntervalStarted biThreshold biCounter w a)) a = 0"
    by (simp add: DTI_associated counter_of_upd)
next
  fix b assume "b \<noteq> a"
  then show "counter_of (fst (DataTransmissionIntervalStarted biThreshold biCounter w a)) b
              = counter_of biCounter b"
    by (cases "IsAssociated w") (simp_all add: DTI_associated DTI_not_associated counter_of_upd)
next
  fix b
  show "counter_of (fst (DataTransmissionIntervalStarted biThreshold biCounter w a)) b < biThreshold"
    using DTI_preserves[OF assms] .
next
  fix b
  show "counter_of (fst (run_DataTransmissionIntervalStarted biThreshold es biCounter)) b < biThreshold"
    using run_preserves[OF assms(1), of biCounter] assms(2) by simp
qed

theorem retrain_counter_witness:
  "0 < main_biThreshold
   \<and> (\<forall>b. counter_of (main_biCounter [1, 2] Map.empty) b < main_biThreshold)
   \<and> DataTransmissionIntervalStarted main_biThreshold (main_biCounter [1, 2] Map.empty)
        \<lparr>GetAddress = 1, GetBssid = 9, IsAssociated = False, GetTypeOfStation = 0\<rparr> 1
       = (main_biCounter [1, 2] Map.empty, [])
   \<and> (\<forall>b. counter_of (fst (run_DataTransmissionIntervalStarted main_biThreshold
              (replicate 25 (\<lparr>GetAddress = 1, GetBssid = 9, IsAssociated = True,
                                GetTypeOfStation = 0\<rparr>, 1))
              (main_biCounter [1, 2] Map.empty))) b < main_biThreshold)"
proof -
  have h1: "0 < main_biThreshold"
    by (simp add: main_biThreshold_def)
  have h2: "\<forall>b. counter_of (main_biCounter [1, 2] Map.empty) b < main_biThreshold"
    by (simp add: counter_of_main_biCounter counter_of_eq main_biThreshold_def)
  show ?thesis
    using h1 h2
      retrain_counter [OF h1 h2,
        of "\<lparr>GetAddress = 1, GetBssid = 9, IsAssociated = False, GetTypeOfStation = 0\<rparr>" 1
           "replicate 25 (\<lparr>GetAddress = 1, GetBssid = 9, IsAssociated = True,
                             GetTypeOfStation = 0\<rparr>, 1)"]
    by simp
qed

text \<open>
  The scenario of the specification: with the threshold 3 and an associated station,
  the third event makes the one request and leaves the counter at 0, and a fourth event
  leaves it at 1.
\<close>

lemma retrain_scenario:
  "run_DataTransmissionIntervalStarted 3
     [(\<lparr>GetAddress = 1, GetBssid = 9, IsAssociated = True, GetTypeOfStation = 0\<rparr>, 1),
      (\<lparr>GetAddress = 1, GetBssid = 9, IsAssociated = True, GetTypeOfStation = 0\<rparr>, 1),
      (\<lparr>GetAddress = 1, GetBssid = 9, IsAssociated = True, GetTypeOfStation = 0\<rparr>, 1)]
     (main_biCounter [1] Map.empty)
     = ([1 \<mapsto> 0], [InitiateTxssCbap 9])
   \<and> run_DataTransmissionIntervalStarted 3
       [(\<lparr>GetAddress = 1, GetBssid = 9, IsAssociated = True, GetTypeOfStation = 0\<rparr>, 1),
        (\<lparr>GetAddress = 1, GetBssid = 9, IsAssociated = True, GetTypeOfStation = 0\<rparr>, 1),
        (\<lparr>GetAddress = 1, GetBssid = 9, IsAssociated = True, GetTypeOfStation = 0\<rparr>, 1),
        (\<lparr>GetAddress = 1, GetBssid = 9, IsAssociated = True, GetTypeOfStation = 0\<rparr>, 1)]
       (main_biCounter [1] Map.empty)
     = ([1 \<mapsto> 1], [InitiateTxssCbap 9])"
  by (simp add: DataTransmissionIntervalStarted_def map_index_def)

section \<open>The sampler re-arms itself\<close>

lemma CalculateThroughput_requests:
  "snd (snd (CalculateThroughput csv now G cpl)) = [Schedule 100000000 CalculateThroughput_handler]"
  by (simp add: CalculateThroughput_def MilliSeconds_def split: prod.splits)

lemma run_sampler_single:
  "fst (run_sampler n csv rx [t] cpl) = map (\<lambda>k. t + int k * 100000000) [0..<n]
   \<and> fst (snd (run_sampler n csv rx [t] cpl)) = [t + int n * 100000000]"
proof (induction n arbitrary: t cpl)
  case 0
  then show ?case by simp
next
  case (Suc n)
  obtain line cpl' where c: "CalculateThroughput csv t (rx t) cpl
      = (line, cpl', [Schedule 100000000 CalculateThroughput_handler])"
    using CalculateThroughput_requests[of csv t "rx t" cpl]
    by (cases "CalculateThroughput csv t (rx t) cpl") auto
  have m: "map (\<lambda>k. t + int k * 100000000) [0..<Suc n]
         = t # map (\<lambda>k. (t + 100000000) + int k * 100000000) [0..<n]"
    by (simp add: upt_conv_Cons map_Suc_upt[symmetric] algebra_simps del: upt_Suc)
  show ?case
    using Suc.IH[of "t + 100000000" cpl'] 
    by (auto simp add: c m algebra_simps split: prod.splits simp del: upt_Suc)
qed

text \<open>
  Claim C9. Every call of \<^verbatim>\<open>CalculateThroughput\<close>, in either output mode and whatever
  the table and the counters are, ends with exactly one request to the scheduler: to call
  \<^verbatim>\<open>CalculateThroughput\<close> again after the fixed delay of 100 ms (100000000 ns) of
  simulated time. So from the first call, which \<^verbatim>\<open>main\<close> requests for 0.1 s, the
  \<open>k\<close>-th call runs at \<open>(k + 1) \<times> 100 ms\<close> exactly, and after any number \<open>n\<close> of
  calls one call is pending, for \<open>(n + 1) \<times> 100 ms\<close>: the chain has no end of its own.
\<close>

theorem sampler_rearms:
  "snd (snd (CalculateThroughput csv now GetTotalRx communicationPairList))
     = [Schedule (MilliSeconds 100) CalculateThroughput_handler]
   \<and> MilliSeconds 100 = 100000000
   \<and> fst (run_sampler n csv rx [main_first_tick] communicationPairList)
       = map (\<lambda>k. (int k + 1) * 100000000) [0..<n]
   \<and> fst (snd (run_sampler n csv rx [main_first_tick] communicationPairList))
       = [(int n + 1) * 100000000]"
  using run_sampler_single[of n csv rx main_first_tick communicationPairList]
        CalculateThroughput_requests[of csv now GetTotalRx communicationPairList]
  by (simp add: main_first_tick_def MilliSeconds_def algebra_simps)

theorem sampler_rearms_witness:
  "snd (snd (CalculateThroughput False 100000000 (\<lambda>s. 0) []))
     = [Schedule (MilliSeconds 100) CalculateThroughput_handler]
   \<and> fst (run_sampler 3 False (\<lambda>t s. 0) [main_first_tick] [])
       = [100000000, 200000000, 300000000]
   \<and> fst (snd (run_sampler 3 False (\<lambda>t s. 0) [main_first_tick] [])) = [400000000]"
  using sampler_rearms [of False 100000000 "\<lambda>s. 0" "[]" 3 "\<lambda>t s. 0"]
  by (simp add: eval_nat_numeral)

section \<open>Lookups in the peer registry\<close>

lemma map_index_cases:
  "map_index m k = (case m k of None \<Rightarrow> (0, m(k \<mapsto> 0)) | Some v \<Rightarrow> (v, m))"
  by (simp add: map_index_def)

lemma SLSCompleted_registry:
  "snd (snd (SLSCompleted csv now ti m p a s an))
     = snd (map_index (snd (map_index m a)) (GetBssid (wifiMac p)))"
  by (simp add: SLSCompleted_def split: prod.splits)

lemma snd_map_index_le: "m \<subseteq>\<^sub>m snd (map_index m k)"
  by (auto simp: map_index_def map_le_def split: option.splits)

lemma dom_snd_map_index: "dom (snd (map_index m k)) = insert k (dom m)"
  by (auto simp: map_index_def split: option.splits)

text \<open>
  Claim C5, as amended. A lookup in the registry never fails. For an address that was
  recorded it returns the recorded index and leaves the registry as it is. For an
  address that was not recorded it returns the index 0 and inserts the address with the
  index 0. So after \<^verbatim>\<open>SLSCompleted\<close> the registry holds every former entry unchanged
  and, in addition, the address of the responder and the address of the reporter's
  coordinator, each with the index 0 if it was not recorded before.
\<close>

theorem registry_lookup_inserts:
  "(map_Mac2ID a = Some i \<longrightarrow> map_index map_Mac2ID a = (i, map_Mac2ID))
   \<and> (map_Mac2ID a = None \<longrightarrow> map_index map_Mac2ID a = (0, map_Mac2ID(a \<mapsto> 0)))
   \<and> map_Mac2ID \<subseteq>\<^sub>m snd (snd (SLSCompleted csv now ti map_Mac2ID p a s an))
   \<and> dom (snd (snd (SLSCompleted csv now ti map_Mac2ID p a s an)))
        = dom map_Mac2ID \<union> {a, GetBssid (wifiMac p)}
   \<and> (\<forall>b. b \<notin> dom map_Mac2ID \<and> (b = a \<or> b = GetBssid (wifiMac p)) \<longrightarrow>
         snd (snd (SLSCompleted csv now ti map_Mac2ID p a s an)) b = Some 0)"
proof -
  have le: "map_Mac2ID \<subseteq>\<^sub>m snd (snd (SLSCompleted csv now ti map_Mac2ID p a s an))"
    unfolding SLSCompleted_registry
    by (rule map_le_trans[OF snd_map_index_le snd_map_index_le])
  have d: "dom (snd (snd (SLSCompleted csv now ti map_Mac2ID p a s an)))
        = dom map_Mac2ID \<union> {a, GetBssid (wifiMac p)}"
    unfolding SLSCompleted_registry by (auto simp: dom_snd_map_index)
  have z: "\<forall>b. b \<notin> dom map_Mac2ID \<and> (b = a \<or> b = GetBssid (wifiMac p)) \<longrightarrow>
         snd (snd (SLSCompleted csv now ti map_Mac2ID p a s an)) b = Some 0"
    unfolding SLSCompleted_registry
    by (auto simp: map_index_def split: option.splits)
  show ?thesis using le d z by (simp add: map_index_def)
qed

theorem registry_lookup_inserts_witness:
  "map_index [1 \<mapsto> 0, 2 \<mapsto> 1] (2 :: Mac48Address) = (1 :: 32 word, [1 \<mapsto> 0, 2 \<mapsto> 1])
   \<and> map_index [1 \<mapsto> 0, 2 \<mapsto> 1] (9 :: Mac48Address)
       = (0 :: 32 word, [1 \<mapsto> 0, 2 \<mapsto> 1, 9 \<mapsto> 0])
   \<and> dom (snd (snd (SLSCompleted True 7 0 [1 \<mapsto> 0, 2 \<mapsto> 1]
        (main_parameters \<lparr>mac = 2, nodeId = 1\<rparr>
           \<lparr>GetAddress = 2, GetBssid = 1, IsAssociated = True, GetTypeOfStation = 0\<rparr>)
        9 3 1))) = {1, 2, 9}"
  using registry_lookup_inserts [of "[1 \<mapsto> 0, 2 \<mapsto> 1]" 2 1 True 7 0
          "main_parameters \<lparr>mac = 2, nodeId = 1\<rparr>
             \<lparr>GetAddress = 2, GetBssid = 1, IsAssociated = True, GetTypeOfStation = 0\<rparr>" 3 1]
        registry_lookup_inserts [of "[1 \<mapsto> 0, 2 \<mapsto> 1]" 9 1 True 7 0
          "main_parameters \<lparr>mac = 2, nodeId = 1\<rparr>
             \<lparr>GetAddress = 2, GetBssid = 1, IsAssociated = True, GetTypeOfStation = 0\<rparr>" 3 1]
  by (auto simp: main_parameters_def)

text \<open>
  Claim C5 as it was stated fails: in the registry built from an access point and one
  station, the address 9 is not recorded; the lookup returns the index 0, the row shows
  the responder as 1, and afterwards the registry has an entry for 9.
\<close>

theorem registry_miss_counterexample:
  "main_map_Mac2ID [\<lparr>mac = 1, nodeId = 0\<rparr>, \<lparr>mac = 2, nodeId = 1\<rparr>] Map.empty 9 = None
   \<and> fst (map_index (main_map_Mac2ID [\<lparr>mac = 1, nodeId = 0\<rparr>, \<lparr>mac = 2, nodeId = 1\<rparr>] Map.empty) 9) = 0
   \<and> snd (map_index (main_map_Mac2ID [\<lparr>mac = 1, nodeId = 0\<rparr>, \<lparr>mac = 2, nodeId = 1\<rparr>] Map.empty) 9) 9 = Some 0
   \<and> DST_ID (fst (SLSCompleted True 7 0
        (main_map_Mac2ID [\<lparr>mac = 1, nodeId = 0\<rparr>, \<lparr>mac = 2, nodeId = 1\<rparr>] Map.empty)
        (main_parameters \<lparr>mac = 2, nodeId = 1\<rparr>
           \<lparr>GetAddress = 2, GetBssid = 1, IsAssociated = True, GetTypeOfStation = 0\<rparr>)
        9 3 1)) = 1
   \<and> snd (snd (SLSCompleted True 7 0
        (main_map_Mac2ID [\<lparr>mac = 1, nodeId = 0\<rparr>, \<lparr>mac = 2, nodeId = 1\<rparr>] Map.empty)
        (main_parameters \<lparr>mac = 2, nodeId = 1\<rparr>
           \<lparr>GetAddress = 2, GetBssid = 1, IsAssociated = True, GetTypeOfStation = 0\<rparr>)
        9 3 1)) 9 = Some 0"
  by (simp add: map_index_def SLSCompleted_def main_parameters_def)

section \<open>Display identities in the sector-sweep trace\<close>

lemma main_map_Mac2ID_other:
  "a \<notin> mac ` set ds \<Longrightarrow> main_map_Mac2ID ds m a = m a"
  by (induction ds arbitrary: m) auto

lemma main_map_Mac2ID_distinct:
  "distinct (map mac ds) \<Longrightarrow> d \<in> set ds \<Longrightarrow> main_map_Mac2ID ds m (mac d) = Some (nodeId d)"
  by (induction ds arbitrary: m) (auto simp: main_map_Mac2ID_other)

lemma unat_succ_32:
  fixes i :: "32 word"
  shows "i \<noteq> - 1 \<Longrightarrow> unat (i + 1) = unat i + 1"
  by (metis Suc_eq_plus1 add.commute unatSuc eq_neg_iff_add_eq_0)

lemma SLSCompleted_registered:
  assumes "m a = Some j" "m (GetBssid (wifiMac p)) = Some k"
  shows "SLSCompleted csv now ti m p a s an =
           (\<lparr>SRC_ID = srcNodeID p + 1, DST_ID = j + 1, TRACE_IDX = ti,
             SECTOR_ID = ucast s, ANTENNA_ID = ucast an,
             ROLE = GetTypeOfStation (wifiMac p), BSS_ID = k + 1, Timestamp = now\<rparr>,
            if \<not> csv then [SlsLine (srcNodeID p) a (ucast s) (ucast an)] else [],
            m)"
  using assms by (simp add: SLSCompleted_def map_index_def)

text \<open>
  Claim C8. Let the registry be built by \<^verbatim>\<open>main\<close> from any list of devices with
  distinct addresses, none with the node id \<open>2\<^sup>3\<^sup>2 - 1\<close> (the ids of a topology of one
  access point and N stations are 0 to N, and N is a \<^verbatim>\<open>uint16_t\<close>). In the row that
  \<^verbatim>\<open>SLSCompleted\<close> writes for the reporting device \<open>src\<close>, the responder \<open>dst\<close> and the
  reporter's coordinator \<open>bss\<close>, each of the three displayed identities is the registry
  index of that device plus exactly 1; the registry is not changed.
\<close>

theorem display_ids:
  assumes "distinct (map mac devices)"
    and "src \<in> set devices" and "dst \<in> set devices" and "bss \<in> set devices"
    and "GetBssid w = mac bss"
    and "\<forall>d \<in> set devices. nodeId d \<noteq> - 1"
  shows "main_map_Mac2ID devices m0 (mac src) = Some (nodeId src)
       \<and> main_map_Mac2ID devices m0 (mac dst) = Some (nodeId dst)
       \<and> main_map_Mac2ID devices m0 (GetBssid w) = Some (nodeId bss)
       \<and> unat (SRC_ID (fst (SLSCompleted csv now ti (main_map_Mac2ID devices m0)
                               (main_parameters src w) (mac dst) s an)))
           = unat (nodeId src) + 1
       \<and> unat (DST_ID (fst (SLSCompleted csv now ti (main_map_Mac2ID devices m0)
                               (main_parameters src w) (mac dst) s an)))
           = unat (nodeId dst) + 1
       \<and> unat (BSS_ID (fst (SLSCompleted csv now ti (main_map_Mac2ID devices m0)
                               (main_parameters src w) (mac dst) s an)))
           = unat (nodeId bss) + 1
       \<and> snd (snd (SLSCompleted csv now ti (main_map_Mac2ID devices m0)
                      (main_parameters src w) (mac dst) s an))
           = main_map_Mac2ID devices m0"
proof -
  let ?m = "main_map_Mac2ID devices m0"
  have s: "?m (mac src) = Some (nodeId src)"
    using assms(1,2) by (rule main_map_Mac2ID_distinct)
  have d: "?m (mac dst) = Some (nodeId dst)"
    using assms(1,3) by (rule main_map_Mac2ID_distinct)
  have b: "?m (GetBssid w) = Some (nodeId bss)"
    unfolding assms(5) using assms(1,4) by (rule main_map_Mac2ID_distinct)
  have b': "?m (GetBssid (wifiMac (main_parameters src w))) = Some (nodeId bss)"
    using b by (simp add: main_parameters_def)
  have n: "nodeId src \<noteq> - 1" "nodeId dst \<noteq> - 1" "nodeId bss \<noteq> - 1"
    using assms(2,3,4,6) by auto
  have r: "SLSCompleted csv now ti ?m (main_parameters src w) (mac dst) s an =
           (\<lparr>SRC_ID = nodeId src + 1, DST_ID = nodeId dst + 1, TRACE_IDX = ti,
             SECTOR_ID = ucast s, ANTENNA_ID = ucast an,
             ROLE = GetTypeOfStation w, BSS_ID = nodeId bss + 1, Timestamp = now\<rparr>,
            if \<not> csv then [SlsLine (nodeId src) (mac dst) (ucast s) (ucast an)] else [],
            ?m)"
    unfolding SLSCompleted_registered[OF d b'] by (simp add: main_parameters_def)
  show ?thesis
    unfolding r using s d b n by (simp add: unat_succ_32)
qed

theorem display_ids_witness:
  "distinct (map mac [\<lparr>mac = 1, nodeId = 0\<rparr>, \<lparr>mac = 2, nodeId = 1\<rparr>, \<lparr>mac = 3, nodeId = 2\<rparr>])
   \<and> SRC_ID (fst (SLSCompleted True 7 0
        (main_map_Mac2ID [\<lparr>mac = 1, nodeId = 0\<rparr>, \<lparr>mac = 2, nodeId = 1\<rparr>, \<lparr>mac = 3, nodeId = 2\<rparr>]
           Map.empty)
        (main_parameters \<lparr>mac = 3, nodeId = 2\<rparr>
           \<lparr>GetAddress = 3, GetBssid = 1, IsAssociated = True, GetTypeOfStation = 0\<rparr>)
        2 5 1)) = 3
   \<and> unat (DST_ID (fst (SLSCompleted True 7 0
        (main_map_Mac2ID [\<lparr>mac = 1, nodeId = 0\<rparr>, \<lparr>mac = 2, nodeId = 1\<rparr>, \<lparr>mac = 3, nodeId = 2\<rparr>]
           Map.empty)
        (main_parameters \<lparr>mac = 3, nodeId = 2\<rparr>
           \<lparr>GetAddress = 3, GetBssid = 1, IsAssociated = True, GetTypeOfStation = 0\<rparr>)
        2 5 1))) = 2
   \<and> unat (BSS_ID (fst (SLSCompleted True 7 0
        (main_map_Mac2ID [\<lparr>mac = 1, nodeId = 0\<rparr>, \<lparr>mac = 2, nodeId = 1\<rparr>, \<lparr>mac = 3, nodeId = 2\<rparr>]
           Map.empty)
        (main_parameters \<lparr>mac = 3, nodeId = 2\<rparr>
           \<lparr>GetAddress = 3, GetBssid = 1, IsAssociated = True, GetTypeOfStation = 0\<rparr>)
        2 5 1))) = 1"
  using display_ids
    [of "[\<lparr>mac = 1, nodeId = 0\<rparr>, \<lparr>mac = 2, nodeId = 1\<rparr>, \<lparr>mac = 3, nodeId = 2\<rparr>]"
        "\<lparr>mac = 3, nodeId = 2\<rparr>" "\<lparr>mac = 2, nodeId = 1\<rparr>" "\<lparr>mac = 1, nodeId = 0\<rparr>"
        "\<lparr>GetAddress = 3, GetBssid = 1, IsAssociated = True, GetTypeOfStation = 0\<rparr>"
        Map.empty True 7 0 5 1]
  by (simp add: SLSCompleted_def map_index_def main_parameters_def)

section \<open>Registering a traffic pair\<close>

lemma fst_set_map_assign:
  "set (map fst (map_assign k v xs)) = insert k (set (map fst xs))"
  by (induction k v xs rule: map_assign.induct) (simp_all add: insert_commute)

lemma fst_image_map_assign:
  "fst ` set (map_assign k v xs) = insert k (fst ` set xs)"
  using fst_set_map_assign[of k v xs] by simp

lemma sorted_map_assign:
  "sorted_wrt (<) (map fst xs) \<Longrightarrow> sorted_wrt (<) (map fst (map_assign k v xs))"
proof (induction xs)
  case Nil
  then show ?case by simp
next
  case (Cons x xs)
  obtain k' v' where x: "x = (k', v')" by (cases x)
  show ?case
    using Cons by (auto simp: x fst_image_map_assign)
qed

lemma InstallApplications_Inr:
  assumes "applicationType = ''onoff'' \<or> applicationType = ''bulk''"
  shows "\<exists>apps'. InstallApplications applicationType simulationTime apps srcNode dstNode address appNumber
           = Inr (\<lparr>srcApp = length apps, packetSink = Suc (length apps), totalRx = 0,
                    throughput = Finite 0, startTime = 0\<rparr>, apps')
         \<and> length apps' = length apps + 2"
  using assms by (auto simp: InstallApplications_def)

lemma main_install_loop:
  assumes "applicationType = ''onoff'' \<or> applicationType = ''bulk''"
  shows "sorted_wrt (<) (map fst cpl) \<Longrightarrow>
         \<exists>pairs apps'. main_install applicationType simulationTime ap address stas i apps cpl
                          = Inr (pairs, apps')
           \<and> set (map fst pairs) = set stas \<union> set (map fst cpl)
           \<and> sorted_wrt (<) (map fst pairs)"
proof (induction stas arbitrary: i apps cpl)
  case Nil
  then show ?case by simp
next
  case (Cons sta stas)
  obtain p apps1 where
    I: "InstallApplications applicationType simulationTime apps sta ap address (of_nat i)
          = Inr (p, apps1)"
    using InstallApplications_Inr[OF assms] by blast
  have "sorted_wrt (<) (map fst (map_assign sta p cpl))"
    using Cons.prems by (rule sorted_map_assign)
  from Cons.IH[OF this, of "Suc i" apps1]
  show ?case
    by (auto simp: I fst_image_map_assign)
qed

text \<open>
  Claim C6, as amended. With either supported application type, registering a traffic
  pair for a source peer does not fail, whether or not the table already has a pair for
  that peer: the new record (fresh generator and sink, counters at zero) becomes the
  record of the peer, replacing the one that was there, and no other peer's record
  changes. After the loop of \<^verbatim>\<open>main\<close> over any list of stations the table has
  records for exactly the stations of the list and the peers it had before, each key once:
  there is at most one record for a source peer at any time.
\<close>

theorem registration_replaces:
  assumes "applicationType = ''onoff'' \<or> applicationType = ''bulk''"
    and "sorted_wrt (<) (map fst communicationPairList)"
  shows "(\<exists>pairs apps'.
            main_install applicationType simulationTime ap address [sta] i apps communicationPairList
              = Inr (pairs, apps')
          \<and> map_of pairs sta =
              Some \<lparr>srcApp = length apps, packetSink = Suc (length apps), totalRx = 0,
                    throughput = Finite 0, startTime = 0\<rparr>
          \<and> (\<forall>n. n \<noteq> sta \<longrightarrow> map_of pairs n = map_of communicationPairList n))
       \<and> (\<exists>pairs apps'.
            main_install applicationType simulationTime ap address stas i apps communicationPairList
              = Inr (pairs, apps')
          \<and> set (map fst pairs) = set stas \<union> set (map fst communicationPairList)
          \<and> distinct (map fst pairs))"
proof
  obtain apps1 where
    I: "InstallApplications applicationType simulationTime apps sta ap address (of_nat i)
          = Inr (\<lparr>srcApp = length apps, packetSink = Suc (length apps), totalRx = 0,
                   throughput = Finite 0, startTime = 0\<rparr>, apps1)"
    using InstallApplications_Inr[OF assms(1)] by blast
  show "\<exists>pairs apps'.
            main_install applicationType simulationTime ap address [sta] i apps communicationPairList
              = Inr (pairs, apps')
          \<and> map_of pairs sta =
              Some \<lparr>srcApp = length apps, packetSink = Suc (length apps), totalRx = 0,
                    throughput = Finite 0, startTime = 0\<rparr>
          \<and> (\<forall>n. n \<noteq> sta \<longrightarrow> map_of pairs n = map_of communicationPairList n)"
    by (simp add: I map_of_map_assign)
next
  obtain pairs apps' where
    L: "main_install applicationType simulationTime ap address stas i apps communicationPairList
          = Inr (pairs, apps')"
       "set (map fst pairs) = set stas \<union> set (map fst communicationPairList)"
       "sorted_wrt (<) (map fst pairs)"
    using main_install_loop[OF assms] by blast
  have "distinct (map fst pairs)"
    using L(3) by (simp add: strict_sorted_iff)
  with L show "\<exists>pairs apps'.
            main_install applicationType simulationTime ap address stas i apps communicationPairList
              = Inr (pairs, apps')
          \<and> set (map fst pairs) = set stas \<union> set (map fst communicationPairList)
          \<and> distinct (map fst pairs)"
    by blast
qed

theorem registration_replaces_witness:
  "sorted_wrt (<) (map fst [(5 :: nat, \<lparr>srcApp = 0, packetSink = 1, totalRx = 7,
                                         throughput = Finite 0, startTime = 3\<rparr>)])
   \<and> (\<exists>pairs apps'.
        main_install ''onoff'' (Finite 10) 0 1 [5] 1 []
          [(5, \<lparr>srcApp = 0, packetSink = 1, totalRx = 7, throughput = Finite 0, startTime = 3\<rparr>)]
          = Inr (pairs, apps')
      \<and> map_of pairs 5 =
          Some \<lparr>srcApp = 0, packetSink = 1, totalRx = 0, throughput = Finite 0, startTime = 0\<rparr>)"
  using registration_replaces
    [of "''onoff''"
        "[(5, \<lparr>srcApp = 0, packetSink = 1, totalRx = 7, throughput = Finite 0, startTime = 3\<rparr>)]"
        "Finite 10" 0 1 5 1 "[]" "[5]"]
  by fastforce

text \<open>
  Claim C6 as it was stated fails: the table has a record for the node 5 (its counter
  at 7, its start time 3); registering the node 5 again succeeds, and the table then holds
  the new record in place of the old one.
\<close>

theorem registration_replaces_counterexample:
  "(case main_install ''onoff'' (Finite 10) 0 1 [5] 1
           [\<lparr>kind = OnOffApplication, host = 5, port = 9000, startAt = Finite 11,
              stopAt = Some (Finite 10)\<rparr>,
            \<lparr>kind = PacketSinkApplication, host = 0, port = 9000, startAt = Finite 0,
              stopAt = None\<rparr>]
           [(5, \<lparr>srcApp = 0, packetSink = 1, totalRx = 7, throughput = Finite 0, startTime = 3\<rparr>)]
    of Inl e \<Rightarrow> False
     | Inr (pairs, apps) \<Rightarrow>
         pairs = [(5, \<lparr>srcApp = 2, packetSink = 3, totalRx = 0, throughput = Finite 0,
                        startTime = 0\<rparr>)])"
  by (simp add: InstallApplications_def)

section \<open>Rounding to binary64\<close>

lemma pow2_powi: "pow2 k = 2 powi k"
  by (simp add: pow2_def power_int_def inverse_eq_divide power_one_over)

lemma pow2_pos [simp]: "0 < pow2 k"
  by (simp add: pow2_powi)

lemma pow2_add: "pow2 (a + b) = pow2 a * pow2 b"
  by (simp add: pow2_powi power_int_add)

lemma pow2_diff: "pow2 (a - b) = pow2 a / pow2 b"
  by (simp add: pow2_powi power_int_diff)

lemma pow2_nat: "pow2 (int n) = 2 ^ n"
  by (simp add: pow2_def)

lemma pow2_mono: "a \<le> b \<Longrightarrow> pow2 a \<le> pow2 b"
  by (simp add: pow2_powi power_int_increasing)

lemma pow2_strict_mono: "a < b \<Longrightarrow> pow2 a < pow2 b"
  by (simp add: pow2_powi power_int_strict_increasing)

lemma pow2_less_iff: "pow2 a < pow2 b \<longleftrightarrow> a < b"
  using pow2_strict_mono[of a b] pow2_mono[of b a] by (cases "a < b") auto

lemma pow2_le_iff: "pow2 a \<le> pow2 b \<longleftrightarrow> a \<le> b"
  using pow2_strict_mono[of b a] pow2_mono[of a b] by (cases "a \<le> b") auto

lemma pow2_nonneg [simp]: "0 \<le> pow2 k"
  using pow2_pos[of k] by linarith

lemma pow2_neq0 [simp]: "pow2 k \<noteq> 0"
  using pow2_pos[of k] by linarith

lemma ilog2_bounds:
  assumes "0 < x"
  shows "pow2 (ilog2 x) \<le> x" and "x < pow2 (ilog2 x + 1)"
proof -
  obtain a b where q: "quotient_of x = (a, b)" by (cases "quotient_of x")
  have b: "0 < b" using q by (rule quotient_of_denom_pos)
  have x: "x = of_int a / of_int b" using q by (rule quotient_of_div)
  have a: "0 < a" using assms b x by (simp add: zero_less_divide_iff)
  let ?la = "bitlen a" and ?lb = "bitlen b"
  have la: "1 \<le> ?la" "2 ^ nat (?la - 1) \<le> a" "a < 2 ^ nat ?la"
    using bitlen_bounds[OF a] a by (auto simp: bitlen_alt_def)
  have lb: "1 \<le> ?lb" "2 ^ nat (?lb - 1) \<le> b" "b < 2 ^ nat ?lb"
    using bitlen_bounds[OF b] b by (auto simp: bitlen_alt_def)
  have ra: "pow2 (?la - 1) \<le> of_int a" "of_int a < pow2 ?la"
  proof -
    have "(of_int (2 ^ nat (?la - 1)) :: rat) \<le> of_int a"
      using la(2) by (simp only: of_int_le_iff)
    then show "pow2 (?la - 1) \<le> of_int a" using la(1) by (simp add: pow2_def)
    have "(of_int a :: rat) < of_int (2 ^ nat ?la)"
      using la(3) by (simp only: of_int_less_iff)
    then show "of_int a < pow2 ?la" using la(1) by (simp add: pow2_def)
  qed
  have rb: "pow2 (?lb - 1) \<le> of_int b" "of_int b < pow2 ?lb"
  proof -
    have "(of_int (2 ^ nat (?lb - 1)) :: rat) \<le> of_int b"
      using lb(2) by (simp only: of_int_le_iff)
    then show "pow2 (?lb - 1) \<le> of_int b" using lb(1) by (simp add: pow2_def)
    have "(of_int b :: rat) < of_int (2 ^ nat ?lb)"
      using lb(3) by (simp only: of_int_less_iff)
    then show "of_int b < pow2 ?lb" using lb(1) by (simp add: pow2_def)
  qed
  have b': "(0::rat) < of_int b" using b by simp
  have a': "(0::rat) < of_int a" using a by simp
  have up: "x < pow2 (?la - ?lb + 1)"
  proof -
    have "x < pow2 ?la / of_int b"
      unfolding x using ra(2) b' by (simp add: divide_strict_right_mono)
    also have "\<dots> \<le> pow2 ?la / pow2 (?lb - 1)"
      by (rule frac_le) (use rb(1) in simp_all)
    also have "\<dots> = pow2 (?la - ?lb + 1)"
      by (simp add: pow2_diff[symmetric] algebra_simps)
    finally show ?thesis .
  qed
  have lo: "pow2 (?la - ?lb - 1) \<le> x"
  proof -
    have "pow2 (?la - ?lb - 1) = pow2 (?la - 1) / pow2 ?lb"
      by (simp add: pow2_diff[symmetric] algebra_simps)
    also have "\<dots> \<le> of_int a / pow2 ?lb"
      using ra(1) by (simp add: divide_right_mono)
    also have "\<dots> \<le> of_int a / of_int b"
      by (rule frac_le) (use rb(2) a' b' in simp_all)
    finally show ?thesis by (simp add: x)
  qed
  have il: "ilog2 x = (if pow2 (?la - ?lb) \<le> x then ?la - ?lb else ?la - ?lb - 1)"
    by (simp add: ilog2_def q Let_def)
  show "pow2 (ilog2 x) \<le> x"
    using lo by (simp add: il)
  show "x < pow2 (ilog2 x + 1)"
    using up by (auto simp: il not_le)
qed

lemma ilog2_unique:
  assumes "pow2 k \<le> x" "x < pow2 (k + 1)"
  shows "ilog2 x = k"
proof -
  have x: "0 < x" using assms(1) pow2_pos[of k] by linarith
  have "pow2 (ilog2 x) < pow2 (k + 1)"
    using ilog2_bounds(1)[OF x] assms(2) by linarith
  then have 1: "ilog2 x < k + 1" by (simp add: pow2_less_iff)
  have "pow2 k < pow2 (ilog2 x + 1)"
    using ilog2_bounds(2)[OF x] assms(1) by linarith
  then have 2: "k < ilog2 x + 1" by (simp add: pow2_less_iff)
  from 1 2 show ?thesis by linarith
qed

lemma ilog2_less:
  assumes "0 < x" "x < pow2 k"
  shows "ilog2 x < k"
proof -
  have "pow2 (ilog2 x) < pow2 k"
    using ilog2_bounds(1)[OF assms(1)] assms(2) by linarith
  then show ?thesis by (simp add: pow2_less_iff)
qed

lemma ilog2_ge:
  assumes "pow2 k \<le> x"
  shows "k \<le> ilog2 x"
proof -
  have x: "0 < x" using assms(1) pow2_pos[of k] by linarith
  have "pow2 k < pow2 (ilog2 x + 1)"
    using ilog2_bounds(2)[OF x] assms(1) by linarith
  then show ?thesis by (simp add: pow2_less_iff)
qed

lemma rne_of_int [simp]: "rne (of_int n) = n"
  by (simp add: rne_def)

lemma rne_error: "\<bar>of_int (rne x) - x\<bar> \<le> 1 / 2"
proof -
  have "of_int \<lfloor>x\<rfloor> \<le> x" "x < of_int \<lfloor>x\<rfloor> + 1" by linarith+
  then show ?thesis
    by (auto simp: rne_def Let_def abs_le_iff)
qed

lemma rne_nonneg: "0 \<le> x \<Longrightarrow> 0 \<le> rne x"
  by (auto simp: rne_def Let_def)

lemma rne_ge_int:
  assumes "of_int n \<le> x"
  shows "n \<le> rne x"
proof -
  have "n \<le> \<lfloor>x\<rfloor>" using assms by (simp add: le_floor_iff)
  then show ?thesis by (auto simp: rne_def Let_def)
qed

lemma rn64_exact:
  assumes "0 < m" "m < 2 ^ 53" "- 1074 \<le> e"
  shows "rn64 (of_int m * pow2 e) = of_int m * pow2 e"
proof -
  define x :: rat where "x = of_int m * pow2 e"
  define E where "E = ulp_exp x"
  have m: "(0::rat) < of_int m" using assms(1) by simp
  have x: "0 < x" using m by (simp add: x_def)
  have "(of_int m :: rat) < of_int (2 ^ 53)"
    using assms(2) by (simp only: of_int_less_iff)
  then have "(of_int m :: rat) < pow2 53" by (simp add: pow2_def)
  then have "x < pow2 53 * pow2 e" by (simp add: x_def)
  then have "x < pow2 (53 + e)" by (simp add: pow2_add)
  from ilog2_less[OF x this] have "ilog2 x - 52 \<le> e" by simp
  then have E: "E \<le> e"
    using assms(3) x by (simp add: E_def ulp_exp_def abs_of_pos)
  define k where "k = nat (e - E)"
  have "e = E + int k" using E by (simp add: k_def)
  then have pe: "pow2 e = pow2 E * 2 ^ k" by (simp add: pow2_add pow2_nat)
  have "x / pow2 E = of_int (m * 2 ^ k)"
    by (simp add: x_def pe)
  then have "rne (x / pow2 E) = m * 2 ^ k"
    by (simp only: rne_of_int)
  then have "rn64 x = of_int (m * 2 ^ k) * pow2 E"
    using x by (simp add: rn64_def E_def)
  also have "\<dots> = x"
    by (simp add: x_def pe)
  finally show ?thesis by (simp add: x_def)
qed

lemma rne_le_twice: "0 \<le> y \<Longrightarrow> of_int (rne y) \<le> 2 * y"
proof -
  assume y: "0 \<le> y"
  have f: "of_int \<lfloor>y\<rfloor> \<le> y" "0 \<le> \<lfloor>y\<rfloor>" using y by simp_all
  show ?thesis
  proof (cases "\<lfloor>y\<rfloor> = 0")
    case True
    then show ?thesis using y by (auto simp: rne_def Let_def)
  next
    case False
    then have "1 \<le> \<lfloor>y\<rfloor>" using f(2) by linarith
    then have "(1::rat) \<le> of_int \<lfloor>y\<rfloor>" by linarith
    then have "1 \<le> y" using f(1) by linarith
    moreover have "of_int (rne y) \<le> y + 1 / 2"
      using rne_error[of y] by linarith
    ultimately show ?thesis by linarith
  qed
qed

lemma rn64_nonneg: "0 \<le> x \<Longrightarrow> 0 \<le> rn64 x"
  by (simp add: rn64_def rne_nonneg)

lemma rn64_le_twice:
  assumes "0 \<le> x"
  shows "rn64 x \<le> 2 * x"
proof (cases "x = 0")
  case True
  then show ?thesis by (simp add: rn64_def)
next
  case False
  let ?p = "pow2 (ulp_exp x)"
  have "0 \<le> x / ?p" using assms by simp
  from rne_le_twice[OF this]
  have "of_int (rne (x / ?p)) * ?p \<le> 2 * (x / ?p) * ?p"
    by (intro mult_right_mono) simp_all
  also have "2 * (x / ?p) * ?p = 2 * x" by simp
  finally show ?thesis using False by (simp add: rn64_def)
qed

lemma to_double_finite:
  assumes "0 \<le> x" "x < pow2 1023"
  shows "to_double x = Finite (rn64 x)"
proof -
  have "rn64 x \<le> 2 * x" using assms(1) by (rule rn64_le_twice)
  also have "\<dots> < pow2 1 * pow2 1023" using assms(2) by (simp add: pow2_def)
  also have "\<dots> = pow2 1024" by (simp add: pow2_add[symmetric])
  finally have 1: "rn64 x < pow2 1024" .
  have "- pow2 1024 < 0" by simp
  also have "0 \<le> rn64 x" using assms(1) by (rule rn64_nonneg)
  finally have 2: "- pow2 1024 < rn64 x" .
  show ?thesis using 1 2 by (simp add: to_double_def Let_def)
qed

lemma to_double_exact:
  assumes "0 \<le> m" "m < 2 ^ 53" "0 \<le> e" "e \<le> 900"
  shows "to_double (of_int m * pow2 e) = Finite (of_int m * pow2 e)"
proof (cases "m = 0")
  case True
  have "to_double 0 = Finite (rn64 0)" by (rule to_double_finite) simp_all
  then show ?thesis using True by (simp add: rn64_def)
next
  case False
  then have m: "0 < m" using assms(1) by simp
  have r: "rn64 (of_int m * pow2 e) = of_int m * pow2 e"
    using m assms(2) by (rule rn64_exact) (use assms(3) in simp)
  have "(of_int m :: rat) < of_int (2 ^ 53)"
    using assms(2) by (simp only: of_int_less_iff)
  then have "(of_int m :: rat) < pow2 53" by (simp add: pow2_def)
  then have "of_int m * pow2 e < pow2 53 * pow2 e" by simp
  also have "\<dots> = pow2 (53 + e)" by (simp add: pow2_add)
  also have "\<dots> \<le> pow2 1023" using assms(4) by (intro pow2_mono) simp
  finally have "of_int m * pow2 e < pow2 1023" .
  moreover have "(0::rat) \<le> of_int m * pow2 e" using assms(1) by simp
  ultimately show ?thesis using r by (simp add: to_double_finite)
qed

lemma rate_of_nat:
  assumes "n < 2 ^ 53"
  shows "ddiv (dmul (to_double (of_nat n)) (Finite 8)) (Finite 100000)
           = Finite (rn64 (of_nat n * 8 / 100000))"
proof -
  have "int n < int (2 ^ 53)" using assms by (simp only: of_nat_less_iff)
  then have n: "0 \<le> int n" "int n < 2 ^ 53" by simp_all
  have 1: "to_double (of_nat n) = Finite (of_nat n)"
    using to_double_exact[OF n, of 0] by (simp add: pow2_def)
  have 2: "to_double (of_nat n * 8) = Finite (of_nat n * 8)"
    using to_double_exact[OF n, of 3] by (simp add: pow2_def)
  have "(of_nat n :: rat) < of_nat (2 ^ 53)"
    using assms by (simp only: of_nat_less_iff)
  then have "(of_nat n :: rat) * 8 / 100000 < 2 ^ 53" by simp
  also have "\<dots> = pow2 53" by (simp add: pow2_def)
  also have "\<dots> \<le> pow2 1023" by (intro pow2_mono) simp
  finally have 3: "(of_nat n :: rat) * 8 / 100000 < pow2 1023" .
  have 4: "(0::rat) \<le> of_nat n * 8 / 100000" by simp
  show ?thesis
    using to_double_finite[OF 4 3] by (simp add: 1 2)
qed

lemma rate_correctly_rounded:
  assumes "unat d < 2 ^ 53"
  shows "ddiv (dmul (of_u64 d) (Finite 8)) (Finite 100000)
           = Finite (rn64 (of_nat (unat d) * 8 / 100000))"
  unfolding of_u64_def using assms by (rule rate_of_nat)

section \<open>The sampler unfolded, and values of the rounding\<close>

lemma CalculateSingleStreamThroughput_eq:
  "CalculateSingleStreamThroughput G sink lastRx avg =
     (ddiv (dmul (of_u64 (G sink - lastRx)) (Finite 8)) (Finite 100000), G sink,
      dadd avg (ddiv (dmul (of_u64 (G sink - lastRx)) (Finite 8)) (Finite 100000)))"
  by (simp add: CalculateSingleStreamThroughput_def Let_def)

lemma sample_pairs_eq:
  "sample_pairs G cpl t =
     (map (\<lambda>(n, p). (n, p\<lparr>totalRx := G (packetSink p),
                             throughput := dadd (throughput p)
                               (ddiv (dmul (of_u64 (G (packetSink p) - totalRx p)) (Finite 8))
                                  (Finite 100000))\<rparr>)) cpl,
      map (\<lambda>(n, p). ddiv (dmul (of_u64 (G (packetSink p) - totalRx p)) (Finite 8))
                        (Finite 100000)) cpl,
      foldl dadd t (map (\<lambda>(n, p). ddiv (dmul (of_u64 (G (packetSink p) - totalRx p)) (Finite 8))
                        (Finite 100000)) cpl))"
  by (induction cpl arbitrary: t) (auto simp: CalculateSingleStreamThroughput_eq)

lemma CalculateThroughput_eq:
  "CalculateThroughput csv now G cpl =
     (let thrs = map (\<lambda>(n, p). ddiv (dmul (of_u64 (G (packetSink p) - totalRx p)) (Finite 8))
                        (Finite 100000)) cpl
      in (if \<not> csv then PlainLine now thrs (foldl dadd (Finite 0) thrs)
          else CsvLine now thrs (foldl dadd (Finite 0) thrs),
          map (\<lambda>(n, p). (n, p\<lparr>totalRx := G (packetSink p),
                             throughput := dadd (throughput p)
                               (ddiv (dmul (of_u64 (G (packetSink p) - totalRx p)) (Finite 8))
                                  (Finite 100000))\<rparr>)) cpl,
          [Schedule (MilliSeconds 100) CalculateThroughput_handler]))"
  by (simp add: CalculateThroughput_def sample_pairs_eq Let_def)

lemma to_double_small:
  assumes "0 \<le> x" "x < 2 ^ 64"
  shows "to_double x = Finite (rn64 x)"
proof -
  have "x < pow2 64" using assms(2) by (simp add: pow2_def)
  also have "\<dots> \<le> pow2 1023" by (intro pow2_mono) simp
  finally show ?thesis using assms(1) by (intro to_double_finite)
qed

lemma dadd_small:
  assumes "0 \<le> a" "0 \<le> b" "a + b < 2 ^ 64"
  shows "dadd (Finite a) (Finite b) = Finite (rn64 (a + b))"
  using to_double_small[of "a + b"] assms by simp

lemma rn64_tenth: "rn64 (1 / 10) = 3602879701896397 / 36028797018963968"
  by code_simp

lemma rn64_fifth: "rn64 (1 / 5) = 3602879701896397 / 18014398509481984"
  by code_simp

lemma rn64_tenth_idem:
  "rn64 (0 + 3602879701896397 / 36028797018963968) = 3602879701896397 / 36028797018963968"
  by code_simp

lemma rn64_sum:
  "rn64 (3602879701896397 / 36028797018963968 + 3602879701896397 / 18014398509481984)
   = 1351079888211149 / 4503599627370496"
  by code_simp

lemma rn64_three_tenths: "rn64 (3 / 10) = 5404319552844595 / 18014398509481984"
  by code_simp

lemma rate_1250:
  "ddiv (dmul (of_u64 1250) (Finite 8)) (Finite 100000)
     = Finite (3602879701896397 / 36028797018963968)"
  using rate_correctly_rounded[of 1250] rn64_tenth by simp

lemma rate_2500:
  "ddiv (dmul (of_u64 2500) (Finite 8)) (Finite 100000)
     = Finite (3602879701896397 / 18014398509481984)"
  using rate_correctly_rounded[of 2500] rn64_fifth by simp

lemma rate_3750:
  "ddiv (dmul (of_u64 3750) (Finite 8)) (Finite 100000)
     = Finite (5404319552844595 / 18014398509481984)"
  using rate_correctly_rounded[of 3750] rn64_three_tenths by simp

lemma sum_first:
  "dadd (Finite 0) (Finite (3602879701896397 / 36028797018963968))
     = Finite (3602879701896397 / 36028797018963968)"
  by (subst dadd_small) (simp_all only: rn64_tenth_idem, simp_all)

lemma sum_second:
  "dadd (Finite (3602879701896397 / 36028797018963968))
        (Finite (3602879701896397 / 18014398509481984))
     = Finite (1351079888211149 / 4503599627370496)"
  by (subst dadd_small) (simp_all only: rn64_sum, simp_all)

lemma rn64_three_tenths_idem:
  "rn64 (0 + 5404319552844595 / 18014398509481984) = 5404319552844595 / 18014398509481984"
  by code_simp

lemma sum_three_tenths:
  "dadd (Finite 0) (Finite (5404319552844595 / 18014398509481984))
     = Finite (5404319552844595 / 18014398509481984)"
  by (subst dadd_small) (simp_all only: rn64_three_tenths_idem, simp_all)

section \<open>The running sum of the rates\<close>

text \<open>
  One rounding changes a value of the normal range by at most the factor
  \<open>1 \<plusminus> 2\<^sup>-\<^sup>5\<^sup>3\<close>, and leaves it in the normal range.
\<close>

lemma ulp_exp_normal:
  assumes "pow2 (- 1022) \<le> x"
  shows "ulp_exp x = ilog2 x - 52"
proof -
  have x: "0 < x" using assms pow2_pos[of "- 1022"] by linarith
  have "- 1022 \<le> ilog2 x" using assms by (rule ilog2_ge)
  then show ?thesis using x by (simp add: ulp_exp_def abs_of_pos)
qed

lemma rn64_rel_err:
  assumes "pow2 (- 1022) \<le> x"
  shows "\<bar>rn64 x - x\<bar> \<le> x * pow2 (- 53)"
proof -
  have x: "0 < x" using assms pow2_pos[of "- 1022"] by linarith
  define E where "E = ulp_exp x"
  define y where "y = x / pow2 E"
  have E: "E = ilog2 x - 52" unfolding E_def using assms by (rule ulp_exp_normal)
  have xy: "x = y * pow2 E" by (simp add: y_def)
  have r: "rn64 x = of_int (rne y) * pow2 E"
    using x by (simp add: rn64_def E_def y_def)
  have "rn64 x - y * pow2 E = (of_int (rne y) - y) * pow2 E"
    unfolding r by (simp add: algebra_simps)
  then have "rn64 x - x = (of_int (rne y) - y) * pow2 E"
    using xy by simp
  then have "\<bar>rn64 x - x\<bar> = \<bar>of_int (rne y) - y\<bar> * pow2 E"
    by (simp add: abs_mult)
  also have "\<dots> \<le> 1 / 2 * pow2 E"
    by (intro mult_right_mono rne_error) simp
  also have "\<dots> = pow2 (- 1) * pow2 E" by (simp add: pow2_def)
  also have "\<dots> = pow2 (ilog2 x) * pow2 (- 53)"
    by (simp add: pow2_add[symmetric] E)
  also have "\<dots> \<le> x * pow2 (- 53)"
    by (intro mult_right_mono ilog2_bounds(1) x) simp
  finally show ?thesis .
qed

lemma rn64_normal:
  assumes "pow2 (- 1022) \<le> x"
  shows "pow2 (- 1022) \<le> rn64 x"
proof -
  have x: "0 < x" using assms pow2_pos[of "- 1022"] by linarith
  define E where "E = ulp_exp x"
  define y where "y = x / pow2 E"
  have E: "E = ilog2 x - 52" unfolding E_def using assms by (rule ulp_exp_normal)
  have r: "rn64 x = of_int (rne y) * pow2 E"
    using x by (simp add: rn64_def E_def y_def)
  have "pow2 52 = pow2 (ilog2 x) / pow2 E"
    by (simp add: pow2_diff[symmetric] E)
  also have "\<dots> \<le> y"
    unfolding y_def by (intro divide_right_mono ilog2_bounds(1) x) simp
  finally have "of_int (2 ^ 52) \<le> y" by (simp add: pow2_def)
  then have "2 ^ 52 \<le> rne y" by (rule rne_ge_int)
  then have "(of_int (2 ^ 52) :: rat) \<le> of_int (rne y)" by (simp only: of_int_le_iff)
  then have "pow2 52 \<le> of_int (rne y)" by (simp add: pow2_def)
  then have "pow2 52 * pow2 E \<le> of_int (rne y) * pow2 E"
    by (intro mult_right_mono) simp_all
  then have "pow2 (ilog2 x) \<le> rn64 x"
    by (simp add: r pow2_add[symmetric] E)
  moreover have "pow2 (- 1022) \<le> pow2 (ilog2 x)"
    by (intro pow2_mono ilog2_ge assms)
  ultimately show ?thesis by linarith
qed

lemma round_op:
  assumes "x = 0 \<or> pow2 (- 1022) \<le> x" and "x < pow2 1023"
  shows "\<exists>y. to_double x = Finite y \<and> (y = 0 \<or> pow2 (- 1022) \<le> y)
             \<and> (1 - pow2 (- 53)) * x \<le> y \<and> y \<le> (1 + pow2 (- 53)) * x"
proof (cases "x = 0")
  case True
  have "to_double 0 = Finite (rn64 0)" by (rule to_double_finite) simp_all
  then show ?thesis using True by (simp add: rn64_def)
next
  case False
  then have n: "pow2 (- 1022) \<le> x" using assms(1) by simp
  then have x: "0 \<le> x" using pow2_pos[of "- 1022"] by linarith
  have f: "to_double x = Finite (rn64 x)" using x assms(2) by (rule to_double_finite)
  have e: "\<bar>rn64 x - x\<bar> \<le> x * pow2 (- 53)" using n by (rule rn64_rel_err)
  have "(1 - pow2 (- 53)) * x \<le> rn64 x" "rn64 x \<le> (1 + pow2 (- 53)) * x"
    using e by (simp_all add: algebra_simps abs_le_iff)
  then show ?thesis using f rn64_normal[OF n] by simp
qed

lemma u_bounds: "0 < pow2 (- 53)" "pow2 (- 53) \<le> 1 / 2" "pow2 (- 1022) \<le> 1 / 100000"
proof -
  show "0 < pow2 (- 53)" by simp
  show "pow2 (- 53) \<le> 1 / 2" by (simp add: pow2_def)
  have "pow2 (- 1022) \<le> pow2 (- 17)" by (intro pow2_mono) simp
  also have "\<dots> \<le> 1 / 100000" by (simp add: pow2_def)
  finally show "pow2 (- 1022) \<le> 1 / 100000" .
qed

lemma round_op_big:
  assumes "1 / 100000 \<le> x" "x < 2 ^ 80"
  shows "\<exists>y. to_double x = Finite y \<and> pow2 (- 1022) \<le> y
             \<and> (1 - pow2 (- 53)) * x \<le> y \<and> y \<le> (1 + pow2 (- 53)) * x
             \<and> x / 2 \<le> y \<and> y \<le> 2 * x"
proof -
  have n: "pow2 (- 1022) \<le> x" using assms(1) u_bounds(3) by linarith
  have "x < pow2 80" using assms(2) by (simp add: pow2_def)
  also have "\<dots> \<le> pow2 1023" by (intro pow2_mono) simp
  finally have r: "x < pow2 1023" .
  have x: "0 \<le> x" using assms(1) by linarith
  obtain y where y: "to_double x = Finite y" "y = 0 \<or> pow2 (- 1022) \<le> y"
      "(1 - pow2 (- 53)) * x \<le> y" "y \<le> (1 + pow2 (- 53)) * x"
    using round_op[of x] n r by blast
  have "to_double x = Finite (rn64 x)" using x r by (rule to_double_finite)
  then have "y = rn64 x" using y(1) by simp
  then have y2: "pow2 (- 1022) \<le> y" using rn64_normal[OF n] by simp
  have "1 / 2 * x \<le> (1 - pow2 (- 53)) * x"
    by (intro mult_right_mono x) (use u_bounds(2) in linarith)
  then have lo: "x / 2 \<le> y" using y(3) by linarith
  have "(1 + pow2 (- 53)) * x \<le> 2 * x"
    by (intro mult_right_mono x) (use u_bounds(2) in linarith)
  then have hi: "y \<le> 2 * x" using y(4) by linarith
  show ?thesis using y y2 lo hi by blast
qed

lemma rate_bounds:
  fixes d :: nat
  assumes "d < 2 ^ 64"
  shows "\<exists>q. ddiv (dmul (to_double (of_nat d)) (Finite 8)) (Finite 100000) = Finite q
           \<and> (q = 0 \<or> pow2 (- 1022) \<le> q)
           \<and> (1 - pow2 (- 53)) ^ 3 * (of_nat d * 8 / 100000) \<le> q
           \<and> q \<le> (1 + pow2 (- 53)) ^ 3 * (of_nat d * 8 / 100000)"
proof (cases "d = 0")
  case True
  have "to_double 0 = Finite (rn64 0)" by (rule to_double_finite) simp_all
  then have "to_double 0 = Finite 0" by (simp add: rn64_def)
  then show ?thesis using True by simp
next
  case False
  let ?u = "pow2 (- 53)"
  let ?X = "of_nat d :: rat"
  have u: "0 \<le> 1 - ?u" "0 \<le> 1 + ?u" using u_bounds by linarith+
  have X1: "1 \<le> ?X" using False by simp
  have "?X < of_nat (2 ^ 64)" using assms by (simp only: of_nat_less_iff)
  then have X2: "?X < 2 ^ 64" by simp
  obtain c where c: "to_double ?X = Finite c" "(1 - ?u) * ?X \<le> c" "c \<le> (1 + ?u) * ?X"
      "?X / 2 \<le> c" "c \<le> 2 * ?X"
    using round_op_big[of ?X] X1 X2 by force
  have pw: "(2::rat) ^ 64 * 32 \<le> 2 ^ 80" by simp
  have c1: "1 / 100000 \<le> c * 8" "c * 8 < 2 ^ 80" using c(4,5) X1 X2 pw by linarith+
  obtain m where m: "to_double (c * 8) = Finite m" "(1 - ?u) * (c * 8) \<le> m"
      "m \<le> (1 + ?u) * (c * 8)" "c * 8 / 2 \<le> m" "m \<le> 2 * (c * 8)"
    using round_op_big[OF c1] by blast
  have "1 \<le> m" "m < 2 ^ 80" using m(4,5) c(4,5) X1 X2 pw by linarith+
  then have m1: "1 / 100000 \<le> m / 100000" "m / 100000 < 2 ^ 80"
    by (simp_all add: divide_right_mono)
  obtain q where q: "to_double (m / 100000) = Finite q" "pow2 (- 1022) \<le> q"
      "(1 - ?u) * (m / 100000) \<le> q" "q \<le> (1 + ?u) * (m / 100000)"
    using round_op_big[OF m1] by blast
  have e: "ddiv (dmul (to_double ?X) (Finite 8)) (Finite 100000) = Finite q"
    by (simp add: c(1) m(1) q(1))
  define a where "a = 1 - ?u"
  define b where "b = 1 + ?u"
  have a: "0 \<le> a" and b: "0 \<le> b" using u by (simp_all add: a_def b_def)
  have la: "a * ?X \<le> c" "a * (c * 8) \<le> m" "a * (m / 100000) \<le> q"
    using c(2) m(2) q(3) by (simp_all add: a_def)
  have lb: "c \<le> b * ?X" "m \<le> b * (c * 8)" "q \<le> b * (m / 100000)"
    using c(3) m(3) q(4) by (simp_all add: b_def)
  have "a ^ 3 * (?X * 8 / 100000) = a * (a * (a * ?X * 8) / 100000)"
    by (simp add: power3_eq_cube)
  also have "\<dots> \<le> a * (a * (c * 8) / 100000)"
    by (intro mult_left_mono divide_right_mono mult_right_mono la(1) a) simp_all
  also have "\<dots> \<le> a * (m / 100000)"
    by (intro mult_left_mono divide_right_mono la(2) a) simp
  also have "\<dots> \<le> q" by (rule la(3))
  finally have lo: "(1 - ?u) ^ 3 * (?X * 8 / 100000) \<le> q" by (simp add: a_def)
  have "q \<le> b * (m / 100000)" by (rule lb(3))
  also have "\<dots> \<le> b * (b * (c * 8) / 100000)"
    by (intro mult_left_mono divide_right_mono lb(2) b) simp
  also have "\<dots> \<le> b * (b * (b * ?X * 8) / 100000)"
    by (intro mult_left_mono divide_right_mono mult_right_mono lb(1) b) simp_all
  also have "\<dots> = b ^ 3 * (?X * 8 / 100000)"
    by (simp add: power3_eq_cube)
  finally have hi: "q \<le> (1 + ?u) ^ 3 * (?X * 8 / 100000)" by (simp add: b_def)
  show ?thesis using e q(2) lo hi by blast
qed

lemma power_one_plus_bound:
  fixes u :: rat
  assumes "0 \<le> u"
  shows "of_nat k * u < 1 \<Longrightarrow> (1 + u) ^ k * (1 - of_nat k * u) \<le> 1"
proof (induction k)
  case 0
  then show ?case by simp
next
  case (Suc k)
  have ku: "of_nat k * u < 1" using Suc.prems assms by (simp add: algebra_simps)
  have p: "0 \<le> (1 + u) ^ k" using assms by simp
  have "(1 + u) * (1 - of_nat (Suc k) * u) = 1 - of_nat k * u - of_nat (Suc k) * u * u"
    by (simp add: algebra_simps)
  also have "\<dots> \<le> 1 - of_nat k * u" using assms by simp
  finally have "(1 + u) ^ k * ((1 + u) * (1 - of_nat (Suc k) * u)) \<le> (1 + u) ^ k * (1 - of_nat k * u)"
    using p by (rule mult_left_mono)
  also have "\<dots> \<le> 1" using Suc.IH[OF ku] .
  finally show ?case by (simp add: mult_ac)
qed

lemma power_u_le_two:
  assumes "k \<le> 2 ^ 52"
  shows "(1 + pow2 (- 53)) ^ k \<le> 2"
proof -
  let ?u = "pow2 (- 53)"
  have "(of_nat k :: rat) \<le> of_nat (2 ^ 52)" using assms by (simp only: of_nat_le_iff)
  then have "(of_nat k :: rat) \<le> 2 ^ 52" by simp
  then have "of_nat k * ?u \<le> 2 ^ 52 * ?u" by (intro mult_right_mono) simp_all
  also have "\<dots> = 1 / 2" by (simp add: pow2_def)
  finally have ku: "of_nat k * ?u \<le> 1 / 2" .
  then have "of_nat k * ?u < 1" by linarith
  from power_one_plus_bound[OF _ this]
  have b: "(1 + ?u) ^ k * (1 - of_nat k * ?u) \<le> 1" by simp
  have p: "0 \<le> (1 + ?u) ^ k" by simp
  have "(1 + ?u) ^ k * (1 / 2) \<le> (1 + ?u) ^ k * (1 - of_nat k * ?u)"
    using p by (intro mult_left_mono) (use ku in linarith)+
  then show ?thesis using b by linarith
qed

lemma sample_ticks_last: "fst (sample_ticks rs (l, a)) = last (l # rs)"
  by (induction rs arbitrary: l a) (simp_all add: CalculateSingleStreamThroughput_eq)

lemma unat_rat_bound: "(of_nat (unat (w :: 64 word)) :: rat) < 2 ^ 64"
proof -
  have "unat w < 2 ^ LENGTH(64)" by (rule unsigned_less)
  then have "unat w < 2 ^ 64" by simp
  then have "(of_nat (unat w) :: rat) < of_nat (2 ^ 64)" by (simp only: of_nat_less_iff)
  then show ?thesis by (simp only: of_nat_power of_nat_numeral)
qed

lemma sample_ticks_bounds:
  assumes "sorted (l # rs)" and "k + length rs \<le> 2 ^ 52" and "3 \<le> k"
    and "s = 0 \<or> pow2 (- 1022) \<le> s"
    and "(1 - pow2 (- 53)) ^ k * (of_nat (unat l) * 8 / 100000) \<le> s"
    and "s \<le> (1 + pow2 (- 53)) ^ k * (of_nat (unat l) * 8 / 100000)"
  shows "\<exists>s'. sample_ticks rs (l, Finite s) = (last (l # rs), Finite s')
           \<and> (1 - pow2 (- 53)) ^ (k + length rs)
                 * (of_nat (unat (last (l # rs))) * 8 / 100000) \<le> s'
           \<and> s' \<le> (1 + pow2 (- 53)) ^ (k + length rs)
                 * (of_nat (unat (last (l # rs))) * 8 / 100000)"
  using assms
proof (induction rs arbitrary: l k s)
  case Nil
  then show ?case by simp
next
  case (Cons r rs)
  define a where "a = 1 - pow2 (- 53)"
  define b where "b = 1 + pow2 (- 53)"
  have a: "0 \<le> a" "a \<le> 1" and b: "1 \<le> b" "0 \<le> b"
    using u_bounds by (simp_all add: a_def b_def)
  define nl where "nl = unat l"
  define nr where "nr = unat r"
  define nd where "nd = unat (r - l)"
  define L where "L = (of_nat nl * 8 / 100000 :: rat)"
  define R where "R = (of_nat nr * 8 / 100000 :: rat)"
  define X where "X = (of_nat nd * 8 / 100000 :: rat)"
  have lr: "l \<le> r" and srt: "sorted (r # rs)" using Cons.prems(1) by simp_all
  have "nd = nr - nl" "nl \<le> nr"
    unfolding nd_def nr_def nl_def using lr by (simp_all add: unat_sub word_le_nat_alt)
  then have "(of_nat nd :: rat) = of_nat nr - of_nat nl"
    by (simp add: of_nat_diff)
  then have RX: "R = L + X" by (simp add: R_def L_def X_def algebra_simps diff_divide_distrib)
  have X0: "0 \<le> X" and L0: "0 \<le> L" by (simp_all add: X_def L_def)
  have "unat (r - l) < 2 ^ LENGTH(64)" by (rule unsigned_less)
  then have nd64: "nd < 2 ^ 64" by (simp add: nd_def)
  have s0: "0 \<le> s" using Cons.prems(4) pow2_pos[of "- 1022"] by linarith
  have sl: "a ^ k * L \<le> s" and su: "s \<le> b ^ k * L"
    using Cons.prems(5,6) unfolding a_def b_def L_def nl_def by blast+
  obtain q where q': "ddiv (dmul (to_double (of_nat nd)) (Finite 8)) (Finite 100000) = Finite q"
      "q = 0 \<or> pow2 (- 1022) \<le> q" "a ^ 3 * X \<le> q" "q \<le> b ^ 3 * X"
    using rate_bounds[OF nd64] unfolding a_def b_def X_def by blast
  have q: "ddiv (dmul (of_u64 (r - l)) (Finite 8)) (Finite 100000) = Finite q"
    using q'(1) unfolding of_u64_def nd_def .
  note q = q q'(2-)
  have q0: "0 \<le> q" using q(2) pow2_pos[of "- 1022"] by linarith
  have k3: "3 \<le> k" by (rule Cons.prems(3))
  have "a ^ k \<le> a ^ 3" using a k3 by (intro power_decreasing) simp_all
  then have "a ^ k * X \<le> a ^ 3 * X" using X0 by (rule mult_right_mono)
  then have lo: "a ^ k * R \<le> s + q" using sl q(3) by (simp add: RX algebra_simps)
  have "b ^ 3 \<le> b ^ k" using b k3 by (intro power_increasing) simp_all
  then have "b ^ 3 * X \<le> b ^ k * X" using X0 by (rule mult_right_mono)
  then have hi: "s + q \<le> b ^ k * R" using su q(4) by (simp add: RX algebra_simps)
  have "k \<le> 2 ^ 52" using Cons.prems(2) by simp
  then have "b ^ k \<le> 2" unfolding b_def by (rule power_u_le_two)
  moreover have R0: "0 \<le> R" by (simp add: R_def)
  ultimately have "b ^ k * R \<le> 2 * R" by (intro mult_right_mono)
  moreover have "of_nat nr < (2::rat) ^ 64" unfolding nr_def by (rule unat_rat_bound)
  then have "R < 2 ^ 64" by (simp add: R_def)
  moreover have "(2::rat) * 2 ^ 64 \<le> 2 ^ 80" by simp
  ultimately have "s + q < 2 ^ 80" using hi by linarith
  also have "(2::rat) ^ 80 = pow2 80" by (simp add: pow2_def)
  also have "\<dots> \<le> pow2 1023" by (intro pow2_mono) simp
  finally have rng: "s + q < pow2 1023" .
  have nrm: "s + q = 0 \<or> pow2 (- 1022) \<le> s + q"
    using Cons.prems(4) q(2) s0 q0 by auto
  obtain s' where s': "to_double (s + q) = Finite s'" "s' = 0 \<or> pow2 (- 1022) \<le> s'"
      "a * (s + q) \<le> s'" "s' \<le> b * (s + q)"
    using round_op[OF nrm rng] by (auto simp: a_def b_def)
  have "a * (a ^ k * R) \<le> a * (s + q)" using lo a(1) by (rule mult_left_mono)
  then have lo': "a ^ Suc k * R \<le> s'" using s'(3) by (simp add: mult.assoc)
  have "b * (s + q) \<le> b * (b ^ k * R)" using hi b(2) by (rule mult_left_mono)
  then have hi': "s' \<le> b ^ Suc k * R" using s'(4) by (simp add: mult.assoc)
  have step: "sample_ticks (r # rs) (l, Finite s) = sample_ticks rs (r, Finite s')"
    by (simp add: CalculateSingleStreamThroughput_eq q(1) s'(1))
  have "\<exists>s''. sample_ticks rs (r, Finite s') = (last (r # rs), Finite s'')
           \<and> (1 - pow2 (- 53)) ^ (Suc k + length rs)
                 * (of_nat (unat (last (r # rs))) * 8 / 100000) \<le> s''
           \<and> s'' \<le> (1 + pow2 (- 53)) ^ (Suc k + length rs)
                 * (of_nat (unat (last (r # rs))) * 8 / 100000)"
  proof (rule Cons.IH[OF srt _ _ s'(2)])
    show "Suc k + length rs \<le> 2 ^ 52" using Cons.prems(2) by simp
    show "3 \<le> Suc k" using k3 by simp
    show "(1 - pow2 (- 53)) ^ Suc k * (of_nat (unat r) * 8 / 100000) \<le> s'"
      using lo' unfolding a_def R_def nr_def .
    show "s' \<le> (1 + pow2 (- 53)) ^ Suc k * (of_nat (unat r) * 8 / 100000)"
      using hi' unfolding b_def R_def nr_def .
  qed
  then show ?case unfolding step by simp
qed

section \<open>The rate and the sum of a pair at a tick\<close>









text \<open>
  The run of ticks on one pair is what the sampler does to the entry of that pair, call
  after call.
\<close>

lemma run_sampler_Suc:
  "run_sampler (Suc n) csv rx [t] cpl =
     (t # fst (run_sampler n csv rx [t + 100000000] (fst (snd (CalculateThroughput csv t (rx t) cpl)))),
      snd (run_sampler n csv rx [t + 100000000] (fst (snd (CalculateThroughput csv t (rx t) cpl)))))"
  by (simp add: CalculateThroughput_eq MilliSeconds_def Let_def split: prod.splits)

lemma run_sampler_pair:
  assumes "i < length cpl" and "cpl ! i = (node, p)"
  shows "length (snd (snd (run_sampler n csv rx [t] cpl))) = length cpl
       \<and> fst (snd (snd (run_sampler n csv rx [t] cpl)) ! i) = node
       \<and> packetSink (snd (snd (snd (run_sampler n csv rx [t] cpl)) ! i)) = packetSink p
       \<and> (totalRx (snd (snd (snd (run_sampler n csv rx [t] cpl)) ! i)),
           throughput (snd (snd (snd (run_sampler n csv rx [t] cpl)) ! i)))
           = sample_ticks (map (\<lambda>k. rx (t + int k * 100000000) (packetSink p)) [0..<n])
               (totalRx p, throughput p)"
  using assms
proof (induction n arbitrary: t cpl p)
  case 0
  then show ?case by simp
next
  case (Suc n)
  let ?thr = "ddiv (dmul (of_u64 (rx t (packetSink p) - totalRx p)) (Finite 8)) (Finite 100000)"
  let ?p1 = "p\<lparr>totalRx := rx t (packetSink p), throughput := dadd (throughput p) ?thr\<rparr>"
  let ?cpl1 = "fst (snd (CalculateThroughput csv t (rx t) cpl))"
  have l1: "i < length ?cpl1" using Suc.prems(1) by (simp add: CalculateThroughput_eq Let_def)
  have n1: "?cpl1 ! i = (node, ?p1)"
    using Suc.prems by (simp add: CalculateThroughput_eq Let_def)
  have len: "length ?cpl1 = length cpl" by (simp add: CalculateThroughput_eq Let_def)
  have m: "map (\<lambda>k. rx (t + int k * 100000000) (packetSink p)) [0..<Suc n]
         = rx t (packetSink p)
           # map (\<lambda>k. rx ((t + 100000000) + int k * 100000000) (packetSink p)) [0..<n]"
    by (simp add: upt_conv_Cons map_Suc_upt[symmetric] algebra_simps del: upt_Suc)
  have st: "sample_ticks (map (\<lambda>k. rx (t + int k * 100000000) (packetSink p)) [0..<Suc n])
              (totalRx p, throughput p)
          = sample_ticks
              (map (\<lambda>k. rx ((t + 100000000) + int k * 100000000) (packetSink ?p1)) [0..<n])
              (totalRx ?p1, throughput ?p1)"
    unfolding m by (simp add: CalculateSingleStreamThroughput_eq)
  show ?case
    unfolding run_sampler_Suc st
    using Suc.IH[OF l1 n1, of "t + 100000000"] len by simp
qed

text \<open>
  Claim C10, as amended. Let a pair start with the stored last total 0 and the running
  sum 0, and let the counter of its sink never decrease over \<open>n\<close> ticks, with
  \<open>n + 3 \<le> 2\<^sup>5\<^sup>2\<close>. After the ticks the stored last total is the counter at the
  last tick, and the running sum is finite and equals the last total times \<open>8 / 1e5\<close> up
  to the rounding of binary64 only: it lies between \<open>(1 - 2\<^sup>-\<^sup>5\<^sup>3)\<^sup>n\<^sup>+\<^sup>3\<close> and
  \<open>(1 + 2\<^sup>-\<^sup>5\<^sup>3)\<^sup>n\<^sup>+\<^sup>3\<close> times that value. (Each tick converts, multiplies, divides and
  adds, each rounded once.)
\<close>

theorem running_sum_up_to_rounding:
  assumes "sorted rs" and "length rs + 3 \<le> 2 ^ 52"
  shows "fst (sample_ticks rs (0, Finite 0)) = last (0 # rs)
       \<and> (\<exists>s. snd (sample_ticks rs (0, Finite 0)) = Finite s
            \<and> (1 - 1 / 2 ^ 53) ^ (length rs + 3)
                  * (of_nat (unat (last (0 # rs))) * 8 / 100000) \<le> s
            \<and> s \<le> (1 + 1 / 2 ^ 53) ^ (length rs + 3)
                  * (of_nat (unat (last (0 # rs))) * 8 / 100000))"
proof -
  have u: "pow2 (- 53) = 1 / 2 ^ 53" by (simp add: pow2_def)
  have srt: "sorted (0 # rs)" using assms(1) by simp
  have "\<exists>s'. sample_ticks rs (0, Finite 0) = (last (0 # rs), Finite s')
           \<and> (1 - pow2 (- 53)) ^ (3 + length rs)
                 * (of_nat (unat (last (0 # rs))) * 8 / 100000) \<le> s'
           \<and> s' \<le> (1 + pow2 (- 53)) ^ (3 + length rs)
                 * (of_nat (unat (last (0 # rs))) * 8 / 100000)"
    by (rule sample_ticks_bounds[OF srt]) (use assms(2) in simp_all)
  then show ?thesis
    unfolding u by (auto simp: add.commute)
qed

theorem running_sum_up_to_rounding_witness:
  "sorted [1250, 3750 :: 64 word]
   \<and> length [1250, 3750 :: 64 word] + 3 \<le> 2 ^ 52
   \<and> fst (sample_ticks [1250, 3750] (0, Finite 0)) = 3750
   \<and> (\<exists>s. snd (sample_ticks [1250, 3750] (0, Finite 0)) = Finite s
        \<and> (1 - 1 / 2 ^ 53) ^ 5 * (3750 * 8 / 100000) \<le> s
        \<and> s \<le> (1 + 1 / 2 ^ 53) ^ 5 * (3750 * 8 / 100000))"
proof -
  have h1: "sorted [1250, 3750 :: 64 word]" by simp
  have h2: "length [1250, 3750 :: 64 word] + 3 \<le> 2 ^ 52" by simp
  have n: "length [1250, 3750 :: 64 word] + 3 = 5"
    "(of_nat (unat (last [0, 1250, 3750 :: 64 word])) :: rat) = 3750"
    "(of_nat (unat (3750 :: 64 word)) :: rat) = 3750"
    "last [0, 1250, 3750 :: 64 word] = 3750" by simp_all
  show ?thesis
    using running_sum_up_to_rounding [OF h1 h2] h1 h2 unfolding n by blast
qed

text \<open>
  Claim C10 as it was stated fails: a pair whose sink has counted 1250 bytes at the
  first tick and 3750 bytes at the second has the running sum 0.1 + 0.2 in binary64,
  which is neither the binary64 value of \<open>3750 * 8 / 1e5\<close> nor the rational 3/10;
  and a pair whose sink has counted the same 3750 bytes at one tick has another sum.
\<close>

theorem running_sum_counterexample:
  "sample_ticks [1250, 3750] (0, Finite 0)
     = (3750, Finite (1351079888211149 / 4503599627370496))
   \<and> snd (sample_ticks [1250, 3750] (0, Finite 0))
       \<noteq> ddiv (dmul (of_u64 (fst (sample_ticks [1250, 3750] (0, Finite 0)))) (Finite 8))
            (Finite 100000)
   \<and> snd (sample_ticks [1250, 3750] (0, Finite 0))
       \<noteq> Finite (of_nat (unat (fst (sample_ticks [1250, 3750] (0, Finite 0)))) * 8 / 100000)
   \<and> sample_ticks [3750] (0, Finite 0)
       = (3750, Finite (5404319552844595 / 18014398509481984))"
  by (simp add: CalculateSingleStreamThroughput_eq rate_1250 rate_2500 rate_3750
        sum_first sum_second sum_three_tenths del: dadd.simps)

end
